theory Spec2Isabelle
  imports Main "HOL-Library.Char_ord" "HOL-Library.List_Lexorder"
begin

section \<open>The OmegaConf configuration loader of kedro\<close>

text \<open>
  A shallow embedding of \<^verbatim>\<open>src/kedro/config/omegaconf_config.py\<close>: the class
  \<^verbatim>\<open>OmegaConfLoader\<close> with its methods \<^verbatim>\<open>__getitem__\<close>,
  \<^verbatim>\<open>load_and_merge_dir_config\<close>, \<^verbatim>\<open>_is_valid_config_path\<close> and
  \<^verbatim>\<open>_check_duplicates\<close>.

  Python strings are \<^typ>\<open>string\<close>: a character of the model is a Unicode code point
  below 256, and strings are ordered as Python orders them (lexicographically, by code
  point). A Python \<^verbatim>\<open>dict\<close> is an association list in insertion order; two
  dicts are equal in Python when they hold the same items, whatever the order, that is when
  their \<^const>\<open>map_of\<close> agree. Exceptions are values of the type \<open>error\<close>; every method
  that can raise returns \<open>error + result\<close>. Calls that leave the program (the file system,
  the logger) are recorded, in the order the code makes them, in a list of events that each
  method returns beside its result.
\<close>

subsection \<open>Python strings\<close>

text \<open>\<^verbatim>\<open>sep.join(xs)\<close>\<close>

fun join :: "string \<Rightarrow> string list \<Rightarrow> string" where
  "join sep [] = []"
| "join sep [x] = x"
| "join sep (x # y # ys) = x @ sep @ join sep (y # ys)"

text \<open>\<^verbatim>\<open>str(n)\<close> for a non-negative integer: its decimal digits.\<close>

definition digit_char :: "nat \<Rightarrow> char" where
  "digit_char d = char_of (48 + d)"

function str_nat :: "nat \<Rightarrow> string" where
  "str_nat n = (if n < 10 then [digit_char n] else str_nat (n div 10) @ [digit_char (n mod 10)])"
  by pat_completeness auto
termination
  by (relation "measure id") auto

declare str_nat.simps [simp del]

text \<open>
  \<^verbatim>\<open>repr(s)\<close> for a string: single quotes around it, unless it holds a single quote
  and no double quote; the quote and the backslash are escaped with a backslash, tab,
  newline and carriage return are written \<^verbatim>\<open>\t\<close>, \<^verbatim>\<open>\n\<close>, \<^verbatim>\<open>\r\<close>, and every
  other character that is not printable is written \<^verbatim>\<open>\xhh\<close>. Below 256 the
  characters that are not printable are the control characters 0 to 31 and 127 to 159, the
  no-break space 160 and the soft hyphen 173; every other character, the letters and signs
  from 161 to 255 among them, is written as it is.
\<close>

definition hex_digit :: "nat \<Rightarrow> char" where
  "hex_digit d = (if d < 10 then char_of (48 + d) else char_of (87 + d))"

definition repr_char :: "char \<Rightarrow> char \<Rightarrow> string" where
  "repr_char quote c =
     (if c = quote \<or> c = CHR 0x5C then [CHR 0x5C, c]
      else if c = CHR 0x09 then [CHR 0x5C, CHR ''t'']
      else if c = CHR 0x0A then [CHR 0x5C, CHR ''n'']
      else if c = CHR 0x0D then [CHR 0x5C, CHR ''r'']
      else if (of_char c :: nat) < 32 \<or> (127 \<le> (of_char c :: nat) \<and> (of_char c :: nat) \<le> 160)
              \<or> (of_char c :: nat) = 173
        then [CHR 0x5C, CHR ''x'', hex_digit (of_char c div 16), hex_digit (of_char c mod 16)]
      else [c])"

definition repr_str :: "string \<Rightarrow> string" where
  "repr_str s =
     (let quote = (if CHR 0x27 \<in> set s \<and> CHR 0x22 \<notin> set s then CHR 0x22 else CHR 0x27)
      in [quote] @ concat (map (repr_char quote) s) @ [quote])"

text \<open>\<^verbatim>\<open>repr(xs)\<close> for a list of strings, as an f-string prints it.\<close>

definition repr_list :: "string list \<Rightarrow> string" where
  "repr_list xs = ''['' @ join '', '' (map repr_str xs) @ '']''"

subsection \<open>Python dicts and sets\<close>

type_synonym ('k, 'v) dict = "('k \<times> 'v) list"

text \<open>\<^verbatim>\<open>d.keys()\<close>\<close>

definition keys :: "('k, 'v) dict \<Rightarrow> 'k list" where
  "keys d = map fst d"

text \<open>\<^verbatim>\<open>k in d\<close>\<close>

definition contains :: "('k, 'v) dict \<Rightarrow> 'k \<Rightarrow> bool" where
  "contains d k = (k \<in> set (keys d))"

text \<open>
  \<^verbatim>\<open>d[k] = v\<close>: the value of an existing key is replaced where the key stands, a new key
  is added at the end.
\<close>

fun dict_set :: "('k, 'v) dict \<Rightarrow> 'k \<Rightarrow> 'v \<Rightarrow> ('k, 'v) dict" where
  "dict_set [] k v = [(k, v)]"
| "dict_set ((k', v') # d) k v = (if k' = k then (k, v) # d else (k', v') # dict_set d k v)"

text \<open>\<^verbatim>\<open>d.update(e)\<close>: the items of \<open>e\<close> are stored one after the other.\<close>

definition dict_update :: "('k, 'v) dict \<Rightarrow> ('k, 'v) dict \<Rightarrow> ('k, 'v) dict" where
  "dict_update d e = foldl (\<lambda>acc (k, v). dict_set acc k v) d e"

text \<open>
  A Python set is a list without repetitions, in some order. \<^verbatim>\<open>a & b\<close> on two sets
  (or key views), and \<^verbatim>\<open>sorted\<close> of a set.
\<close>

definition set_inter :: "'k list \<Rightarrow> 'k list \<Rightarrow> 'k list" where
  "set_inter a b = remdups (filter (\<lambda>k. k \<in> set b) a)"

definition sorted_py :: "string list \<Rightarrow> string list" where
  "sorted_py xs = sort xs"

subsection \<open>The world outside the loader\<close>

type_synonym path = string

text \<open>
  The location that the YAML parser attaches to a syntax error
  (\<^verbatim>\<open>exc.problem_mark\<close>, a \<^verbatim>\<open>yaml.error.Mark\<close>). Its fields \<open>line\<close> and
  \<open>column\<close> are indices counted from 0: the first character of a file is at line 0,
  column 0, and the parser itself prints a mark as line \<open>line + 1\<close>, column
  \<open>column + 1\<close>.
\<close>

record mark =
  line :: nat
  column :: nat

text \<open>
  What the loader reads from outside, for configuration values of type \<open>'v\<close>:
  \<^item> \<open>joinpath a b\<close> is \<^verbatim>\<open>str(Path(a) / b)\<close>;
  \<^item> \<open>is_dir p\<close> is \<^verbatim>\<open>Path(p).is_dir()\<close>, \<open>is_file p\<close> is \<^verbatim>\<open>p.is_file()\<close>;
  \<^item> \<open>iglob g\<close> are the matches of \<^verbatim>\<open>iglob(g, recursive=True)\<close>, in the order the
    file system enumerates them, and \<open>resolve p\<close> is \<^verbatim>\<open>Path(p).resolve()\<close>;
  \<^item> \<open>set_iter ps\<close> is the order in which Python iterates over \<^verbatim>\<open>set(ps)\<close>;
  \<^item> \<open>load p\<close> is \<^verbatim>\<open>OmegaConf.load(p)\<close>: the parsed top-level dict, or the mark of
    the \<^verbatim>\<open>ParserError\<close> or \<^verbatim>\<open>ScannerError\<close> that it raises;
  \<^item> \<open>merge_value x y\<close> is what \<^verbatim>\<open>OmegaConf.merge\<close> makes of two values \<open>x\<close> and
    \<open>y\<close> that stand under the same key (the deep merge of nested dicts, the right one
    of two leaves).
\<close>

record 'v world =
  joinpath :: "string \<Rightarrow> string \<Rightarrow> path"
  is_dir :: "path \<Rightarrow> bool"
  iglob :: "string \<Rightarrow> path list"
  resolve :: "path \<Rightarrow> path"
  set_iter :: "path list \<Rightarrow> path list"
  is_file :: "path \<Rightarrow> bool"
  load :: "path \<Rightarrow> mark + (string, 'v) dict"
  merge_value :: "'v \<Rightarrow> 'v \<Rightarrow> 'v"

text \<open>
  Python iterates over a set in an order of its own, once over each element: that is all the
  loader may rely on.
\<close>

definition set_iter_ok :: "'v world \<Rightarrow> bool" where
  "set_iter_ok w = (\<forall>ps. set (set_iter w ps) = set ps \<and> distinct (set_iter w ps))"

text \<open>A dict that a parser returns has each key once.\<close>

definition load_ok :: "'v world \<Rightarrow> bool" where
  "load_ok w = (\<forall>p c. load w p = Inr c \<longrightarrow> distinct (keys c))"

text \<open>
  \<^verbatim>\<open>OmegaConf.merge(a, b)\<close> at the top level: a key of \<open>b\<close> that \<open>a\<close> has as well
  gets the merge of the two values, a key that only \<open>b\<close> has is added.
  \<^verbatim>\<open>OmegaConf.merge(*configs)\<close> merges the second and every later dict into a copy of
  the first, from left to right.
\<close>

definition merge2 :: "('v \<Rightarrow> 'v \<Rightarrow> 'v) \<Rightarrow> (string, 'v) dict \<Rightarrow> (string, 'v) dict \<Rightarrow> (string, 'v) dict" where
  "merge2 mg a b =
     foldl (\<lambda>acc (k, v). case map_of acc k of
                             Some old \<Rightarrow> dict_set acc k (mg old v)
                           | None \<Rightarrow> dict_set acc k v) a b"

fun omegaconf_merge :: "('v \<Rightarrow> 'v \<Rightarrow> 'v) \<Rightarrow> (string, 'v) dict list \<Rightarrow> (string, 'v) dict" where
  "omegaconf_merge mg [] = []"
| "omegaconf_merge mg (c # cs) = foldl (merge2 mg) c cs"

text \<open>The exceptions that the loader raises, each with its message.\<close>

datatype error =
    KeyError string
  | MissingConfigException string
  | ValueError string
  | ParserError string

text \<open>
  The calls that leave the loader: to the file system, to \<^verbatim>\<open>OmegaConf.load\<close> and
  \<^verbatim>\<open>OmegaConf.merge\<close>, and to the logger.
\<close>

datatype event =
    IsDir path
  | Glob string
  | IsFile path
  | Load path
  | Merge
  | LogDebug string

subsection \<open>The loader\<close>

text \<open>
  The fields of an \<^verbatim>\<open>OmegaConfLoader\<close>. The class extends
  \<^verbatim>\<open>AbstractConfigLoader\<close>, which is not part of the source at hand.

  Modelled from the spec: the base class keeps the values that the caller has assigned to
  logical keys on the loader instance in a table of its own, here \<open>data\<close>;
  \<^verbatim>\<open>key in self\<close> asks whether that table has the key, and
  \<^verbatim>\<open>super().__getitem__(key)\<close> returns the value stored there. The base class also
  holds \<open>conf_source\<close> and \<open>env\<close>, which the constructor passes on to it.
\<close>

record 'v loader =
  conf_source :: string
  env :: "string option"
  base_env :: string
  default_run_env :: string
  config_patterns :: "(string, string list) dict"
  data :: "(string, (string, 'v) dict) dict"

text \<open>
  \<^verbatim>\<open>__init__\<close>: the default patterns, updated with the caller's; no value is pre-set.
\<close>

definition default_patterns :: "(string, string list) dict" where
  "default_patterns =
     [(''catalog'', [''catalog*'', ''catalog*/**'', ''**/catalog*'']),
      (''parameters'', [''parameters*'', ''parameters*/**'', ''**/parameters*'']),
      (''credentials'', [''credentials*'', ''credentials*/**'', ''**/credentials*'']),
      (''logging'', [''logging*'', ''logging*/**'', ''**/logging*''])]"

definition init :: "string \<Rightarrow> string option \<Rightarrow> (string, string list) dict option \<Rightarrow> string \<Rightarrow> string \<Rightarrow> 'v loader" where
  "init conf_source' env' config_patterns' base_env' default_run_env' =
     \<lparr> conf_source = conf_source',
       env = env',
       base_env = base_env',
       default_run_env = default_run_env',
       config_patterns =
         dict_update default_patterns (case config_patterns' of None \<Rightarrow> [] | Some ps \<Rightarrow> ps),
       data = [] \<rparr>"

text \<open>
  \<^verbatim>\<open>_is_valid_config_path\<close>. \<^verbatim>\<open>path.suffix\<close> is the part of the last component of
  the path from its last dot on, when that dot is neither the first nor the last character
  of the component, and the empty string otherwise.
\<close>

definition path_name :: "path \<Rightarrow> string" where
  "path_name p = rev (takeWhile (\<lambda>c. c \<noteq> CHR ''/'') (rev p))"

definition suffix :: "path \<Rightarrow> string" where
  "suffix p =
     (let name = path_name p;
          ext = rev (takeWhile (\<lambda>c. c \<noteq> CHR ''.'') (rev name))
      in if CHR ''.'' \<in> set name \<and> Suc (length ext) < length name \<and> ext \<noteq> []
         then CHR ''.'' # ext else [])"

definition is_valid_config_path :: "'v world \<Rightarrow> path \<Rightarrow> bool" where
  "is_valid_config_path w p = (is_file w p \<and> suffix p \<in> set [''.yml'', ''.yaml'', ''.json''])"

text \<open>
  \<^verbatim>\<open>_check_duplicates\<close>. The two loops go over the pairs of a file and a later file of
  the dict \<open>seen_files_to_keys\<close>; \<open>duplicates\<close> is the list of messages they collect.
\<close>

definition duplicate_message :: "path \<Rightarrow> path \<Rightarrow> string list \<Rightarrow> string" where
  "duplicate_message filepath1 filepath2 overlapping_keys =
     (let sorted_keys = join '', '' (sorted_py overlapping_keys);
          sorted_keys = (if length sorted_keys > 100 then take 100 sorted_keys @ ''...''
                         else sorted_keys)
      in ''Duplicate keys found in '' @ filepath1 @ '' and '' @ filepath2 @ '': '' @ sorted_keys)"

definition duplicates_with :: "path \<Rightarrow> string list \<Rightarrow> (path, string list) dict \<Rightarrow> string list" where
  "duplicates_with filepath1 config1 later =
     concat (map (\<lambda>(filepath2, config2).
                    let overlapping_keys = set_inter config1 config2
                    in if overlapping_keys \<noteq> []
                       then [duplicate_message filepath1 filepath2 overlapping_keys] else [])
                 later)"

fun duplicates :: "(path, string list) dict \<Rightarrow> string list" where
  "duplicates [] = []"
| "duplicates ((filepath1, config1) # later) =
     duplicates_with filepath1 config1 later @ duplicates later"

definition check_duplicates :: "(path, string list) dict \<Rightarrow> error + unit" where
  "check_duplicates seen_files_to_keys =
     (let dups = duplicates seen_files_to_keys
      in if dups \<noteq> [] then Inl (ValueError (join [CHR 0x0A] dups)) else Inr ())"

text \<open>
  \<^verbatim>\<open>load_and_merge_dir_config\<close>, in the parts the code has: the glob expressions and the
  resolved paths they match, the set of these paths filtered to configuration files, the
  loop that loads each file into the dict \<open>config_per_file\<close>, and the check and merge
  of what was loaded.
\<close>

definition glob_patterns :: "path \<Rightarrow> string list \<Rightarrow> string list" where
  "glob_patterns conf_path patterns = map (\<lambda>pattern. conf_path @ ''/'' @ pattern) patterns"

definition paths :: "'v world \<Rightarrow> path \<Rightarrow> string list \<Rightarrow> path list" where
  "paths w conf_path patterns =
     concat (map (\<lambda>g. map (resolve w) (iglob w g)) (glob_patterns conf_path patterns))"

definition deduplicated_paths :: "'v world \<Rightarrow> path \<Rightarrow> string list \<Rightarrow> path list" where
  "deduplicated_paths w conf_path patterns = set_iter w (paths w conf_path patterns)"

definition config_files_filtered :: "'v world \<Rightarrow> path \<Rightarrow> string list \<Rightarrow> path list" where
  "config_files_filtered w conf_path patterns =
     filter (is_valid_config_path w) (deduplicated_paths w conf_path patterns)"

text \<open>
  The calls up to the loop over the files: the directory test, one glob per pattern, and
  \<^verbatim>\<open>is_file\<close> on every path of the set.
\<close>

definition scan_events :: "'v world \<Rightarrow> path \<Rightarrow> string list \<Rightarrow> event list" where
  "scan_events w conf_path patterns =
     IsDir conf_path # map Glob (glob_patterns conf_path patterns)
       @ map IsFile (deduplicated_paths w conf_path patterns)"

definition parser_message :: "path \<Rightarrow> mark \<Rightarrow> string" where
  "parser_message config_filepath problem_mark =
     ''Invalid YAML or JSON file '' @ config_filepath @ '', unable to read line ''
       @ str_nat (line problem_mark) @ '', position '' @ str_nat (column problem_mark) @ ''.''"

fun load_files ::
  "'v world \<Rightarrow> (path, (string, 'v) dict) dict \<Rightarrow> path list
     \<Rightarrow> event list \<times> (error + (path, (string, 'v) dict) dict)" where
  "load_files w config_per_file [] = ([], Inr config_per_file)"
| "load_files w config_per_file (config_filepath # rest) =
     (case load w config_filepath of
        Inl problem_mark \<Rightarrow>
          ([Load config_filepath], Inl (ParserError (parser_message config_filepath problem_mark)))
      | Inr config \<Rightarrow>
          (case load_files w (dict_set config_per_file config_filepath config) rest of
             (evs, r) \<Rightarrow> (Load config_filepath # evs, r)))"

definition seen_file_to_keys :: "(path, (string, 'v) dict) dict \<Rightarrow> (path, string list) dict" where
  "seen_file_to_keys config_per_file =
     map (\<lambda>(file, config). (file, remdups (keys config))) config_per_file"

definition merge_dir_config ::
  "'v world \<Rightarrow> (path, (string, 'v) dict) dict \<Rightarrow> event list \<times> (error + (string, 'v) dict)" where
  "merge_dir_config w config_per_file =
     (let aggregate_config = map snd config_per_file
      in case check_duplicates (seen_file_to_keys config_per_file) of
           Inl e \<Rightarrow> ([], Inl e)
         | Inr _ \<Rightarrow>
             if aggregate_config = [] then ([], Inr [])
             else if length aggregate_config = 1 then ([], Inr (hd aggregate_config))
             else ([Merge], Inr (omegaconf_merge (merge_value w) aggregate_config)))"

definition load_and_merge_dir_config ::
  "'v world \<Rightarrow> path \<Rightarrow> string list \<Rightarrow> event list \<times> (error + (string, 'v) dict)" where
  "load_and_merge_dir_config w conf_path patterns =
     (if \<not> is_dir w conf_path
      then ([IsDir conf_path],
            Inl (MissingConfigException
                   (''Given configuration path either does not exist ''
                      @ ''or is not a valid directory: '' @ conf_path)))
      else
        (case load_files w [] (config_files_filtered w conf_path patterns) of
           (evs, Inl e) \<Rightarrow> (scan_events w conf_path patterns @ evs, Inl e)
         | (evs, Inr config_per_file) \<Rightarrow>
             (case merge_dir_config w config_per_file of
                (evs', r) \<Rightarrow> (scan_events w conf_path patterns @ evs @ evs', r))))"

text \<open>
  \<^verbatim>\<open>__getitem__\<close>. \<^verbatim>\<open>self.env or self.default_run_env\<close> takes the default when
  \<open>env\<close> is \<^verbatim>\<open>None\<close> and also when it is the empty string.
\<close>

definition super_getitem :: "'v loader \<Rightarrow> string \<Rightarrow> error + (string, 'v) dict" where
  "super_getitem self key =
     (case map_of (data self) key of None \<Rightarrow> Inl (KeyError key) | Some v \<Rightarrow> Inr v)"

definition run_env :: "'v loader \<Rightarrow> string" where
  "run_env self =
     (case env self of
        None \<Rightarrow> default_run_env self
      | Some e \<Rightarrow> if e = [] then default_run_env self else e)"

definition base_path :: "'v world \<Rightarrow> 'v loader \<Rightarrow> path" where
  "base_path w self = joinpath w (conf_source self) (base_env self)"

definition env_path :: "'v world \<Rightarrow> 'v loader \<Rightarrow> path" where
  "env_path w self = joinpath w (conf_source self) (run_env self)"

definition override_message :: "path \<Rightarrow> string list \<Rightarrow> string" where
  "override_message env_path' common_keys =
     ''Config from path '' @ [CHR 0x27] @ env_path' @ [CHR 0x27] @ '' will override the following ''
       @ ''existing top-level config keys: '' @ join '', '' (sorted_py common_keys)"

definition missing_message :: "path \<Rightarrow> path \<Rightarrow> string list \<Rightarrow> string" where
  "missing_message base_path' env_path' patterns =
     ''No files of YAML or JSON format found in '' @ base_path' @ '' or '' @ env_path'
       @ '' matching the glob pattern(s): '' @ repr_list patterns"

definition unknown_key_message :: "string \<Rightarrow> string" where
  "unknown_key_message key =
     ''No config patterns were found for '' @ [CHR 0x27] @ key @ [CHR 0x27]
       @ '' in your config loader''"

definition getitem ::
  "'v world \<Rightarrow> 'v loader \<Rightarrow> string \<Rightarrow> event list \<times> (error + (string, 'v) dict)" where
  "getitem w self key =
     (if contains (data self) key then ([], super_getitem self key)
      else
        (case map_of (config_patterns self) key of
           None \<Rightarrow> ([], Inl (KeyError (unknown_key_message key)))
         | Some patterns \<Rightarrow>
             (case load_and_merge_dir_config w (base_path w self) patterns of
                (evs1, Inl e) \<Rightarrow> (evs1, Inl e)
              | (evs1, Inr base_config) \<Rightarrow>
                  (case load_and_merge_dir_config w (env_path w self) patterns of
                     (evs2, Inl e) \<Rightarrow> (evs1 @ evs2, Inl e)
                   | (evs2, Inr env_config) \<Rightarrow>
                       (let common_keys = set_inter (keys base_config) (keys env_config);
                            evs3 = (if common_keys \<noteq> []
                                    then [LogDebug (override_message (env_path w self) common_keys)]
                                    else []);
                            config = dict_update base_config env_config
                        in (evs1 @ evs2 @ evs3,
                            if config = []
                            then Inl (MissingConfigException
                                        (missing_message (base_path w self) (env_path w self) patterns))
                            else Inr config))))))"

subsection \<open>Example worlds\<close>

text \<open>
  A small world over numbers as values: the directories that exist, the matches of each glob
  expression, the files with what the parser makes of each, and the order in which a set of
  paths is iterated. Paths are joined with a slash and are their own canonical form; the
  merge of two values under one key is the right one.
\<close>

definition example_world ::
  "path list \<Rightarrow> (string, path list) dict \<Rightarrow> (path, mark + (string, nat) dict) dict
     \<Rightarrow> (path list \<Rightarrow> path list) \<Rightarrow> nat world" where
  "example_world dirs globs files order =
     \<lparr> joinpath = (\<lambda>a b. a @ ''/'' @ b),
       is_dir = (\<lambda>p. p \<in> set dirs),
       iglob = (\<lambda>g. case map_of globs g of None \<Rightarrow> [] | Some ps \<Rightarrow> ps),
       resolve = (\<lambda>p. p),
       set_iter = order,
       is_file = (\<lambda>p. p \<in> set (keys files)),
       load = (\<lambda>p. case map_of files p of None \<Rightarrow> Inr [] | Some r \<Rightarrow> r),
       merge_value = (\<lambda>x y. y) \<rparr>"

text \<open>The loader of \<^verbatim>\<open>OmegaConfLoader("conf")\<close>, and the same with a value pre-set.\<close>

definition example_loader :: "nat loader" where
  "example_loader = init ''conf'' None None ''base'' ''local''"

definition preset_loader :: "nat loader" where
  "preset_loader = example_loader \<lparr> data := [(''catalog'', [(''x'', 7)])] \<rparr>"

text \<open>A loader whose caller has registered the key \<^verbatim>\<open>spark\<close> with no pattern.\<close>

definition spark_loader :: "nat loader" where
  "spark_loader = init ''conf'' None (Some [(''spark'', [])]) ''base'' ''local''"

text \<open>Both directories exist and are empty.\<close>

definition empty_world :: "nat world" where
  "empty_world = example_world [''conf/base'', ''conf/local''] [] [] remdups"

text \<open>
  The base layer defines \<^verbatim>\<open>{a: 1, b: 2}\<close> in one file and the environment layer
  \<^verbatim>\<open>{b: 3, c: 4}\<close> in another.
\<close>

definition layered_world :: "nat world" where
  "layered_world =
     example_world [''conf/base'', ''conf/local'']
       [(''conf/base/catalog*'', [''conf/base/catalog.yml'']),
        (''conf/local/catalog*'', [''conf/local/catalog.yml''])]
       [(''conf/base/catalog.yml'', Inr [(''a'', 1), (''b'', 2)]),
        (''conf/local/catalog.yml'', Inr [(''b'', 3), (''c'', 4)])]
       remdups"

definition catalog_patterns :: "string list" where
  "catalog_patterns = [''catalog*'', ''catalog*/**'', ''**/catalog*'']"

text \<open>
  Worlds with a directory missing: only the environment directory exists, with a fragment;
  only the base directory exists, with a fragment; only the base directory exists, and its
  one file is malformed at line index 2, column index 4.
\<close>

definition no_base_world :: "nat world" where
  "no_base_world =
     example_world [''conf/local'']
       [(''conf/local/catalog*'', [''conf/local/catalog.yml''])]
       [(''conf/local/catalog.yml'', Inr [(''b'', 3), (''c'', 4)])]
       remdups"

definition no_env_world :: "nat world" where
  "no_env_world =
     example_world [''conf/base'']
       [(''conf/base/catalog*'', [''conf/base/catalog.yml''])]
       [(''conf/base/catalog.yml'', Inr [(''a'', 1), (''b'', 2)])]
       remdups"

definition broken_base_world :: "nat world" where
  "broken_base_world =
     example_world [''conf/base'']
       [(''conf/base/catalog*'', [''conf/base/catalog.yml''])]
       [(''conf/base/catalog.yml'', Inl \<lparr> line = 2, column = 4 \<rparr>)]
       remdups"

text \<open>
  Both directories exist; the base directory holds one good file, then a file that the
  parser rejects at its first line, sixth character (line index 0, column index 5), then a
  file that the parser rejects at line index 3, column index 1.
\<close>

definition malformed_world :: "nat world" where
  "malformed_world =
     example_world [''conf/base'', ''conf/local'']
       [(''conf/base/catalog*'',
         [''conf/base/catalog.yml'', ''conf/base/catalog_bad.yml'',
          ''conf/base/catalog_worse.yml''])]
       [(''conf/base/catalog.yml'', Inr [(''a'', 1), (''b'', 2)]),
        (''conf/base/catalog_bad.yml'', Inl \<lparr> line = 0, column = 5 \<rparr>),
        (''conf/base/catalog_worse.yml'', Inl \<lparr> line = 3, column = 1 \<rparr>)]
       remdups"

text \<open>Only the environment directory exists, and its one file is malformed.\<close>

definition malformed_env_world :: "nat world" where
  "malformed_env_world =
     example_world [''conf/local'']
       [(''conf/local/catalog*'', [''conf/local/catalog.yml''])]
       [(''conf/local/catalog.yml'', Inl \<lparr> line = 0, column = 5 \<rparr>)]
       remdups"

text \<open>
  The base directory holds two files with disjoint top-level keys, \<^verbatim>\<open>{a: 1, b: 2}\<close> and
  \<^verbatim>\<open>{c: 3}\<close>; in \<open>two_file_world'\<close> the two files are enumerated in the other order.
\<close>

definition two_file_world :: "nat world" where
  "two_file_world =
     example_world [''conf/base'', ''conf/local'']
       [(''conf/base/catalog*'', [''conf/base/catalog_a.yml'', ''conf/base/catalog_b.yml''])]
       [(''conf/base/catalog_a.yml'', Inr [(''a'', 1), (''b'', 2)]),
        (''conf/base/catalog_b.yml'', Inr [(''c'', 3)])]
       remdups"

definition two_file_world' :: "nat world" where
  "two_file_world' =
     example_world [''conf/base'', ''conf/local'']
       [(''conf/base/catalog*'', [''conf/base/catalog_b.yml'', ''conf/base/catalog_a.yml''])]
       [(''conf/base/catalog_a.yml'', Inr [(''a'', 1), (''b'', 2)]),
        (''conf/base/catalog_b.yml'', Inr [(''c'', 3)])]
       remdups"




subsection \<open>Notions of the specification\<close>

text \<open>
  The top-level key sets of a list of fragments are pairwise disjoint: no key stands in two
  fragments at different positions.
\<close>

definition pairwise_disjoint :: "('k, 'v) dict list \<Rightarrow> bool" where
  "pairwise_disjoint cs =
     (\<forall>i j. i < j \<and> j < length cs \<longrightarrow> set (keys (cs ! i)) \<inter> set (keys (cs ! j)) = {})"


definition common_keys :: "(path, (string, 'v) dict) dict \<Rightarrow> nat \<Rightarrow> nat \<Rightarrow> string set" where
  "common_keys fragments i j =
     set (keys (snd (fragments ! i))) \<inter> set (keys (snd (fragments ! j)))"


text \<open>
  Two worlds hold the same files when they agree on everything but the order of
  enumeration: the matches of each glob expression are the same set, and the order in which
  a set of paths is iterated is free.
\<close>

definition same_files :: "'v world \<Rightarrow> 'v world \<Rightarrow> bool" where
  "same_files w w' =
     (joinpath w' = joinpath w \<and> is_dir w' = is_dir w \<and> resolve w' = resolve w \<and>
      is_file w' = is_file w \<and> load w' = load w \<and> merge_value w' = merge_value w \<and>
      (\<forall>g. set (iglob w' g) = set (iglob w g)))"

section \<open>Properties of the loader\<close>

subsection \<open>Auxiliary facts\<close>

lemma contains_map_of: "contains d k \<longleftrightarrow> map_of d k \<noteq> None"
  by (simp add: contains_def keys_def map_of_eq_None_iff)

lemma set_iter_Nil: "set_iter_ok w \<Longrightarrow> set_iter w [] = []"
proof -
  assume "set_iter_ok w"
  then have "set (set_iter w []) = set []" unfolding set_iter_ok_def by blast
  then show ?thesis by simp
qed

lemma example_world_set_iter_ok: "set_iter_ok (example_world dirs globs files remdups)"
  by (simp add: set_iter_ok_def example_world_def)

lemma load_and_merge_no_patterns:
  "set_iter_ok w \<Longrightarrow> is_dir w p \<Longrightarrow> load_and_merge_dir_config w p [] = ([IsDir p], Inr [])"
  by (simp add: load_and_merge_dir_config_def config_files_filtered_def deduplicated_paths_def
      paths_def glob_patterns_def set_iter_Nil merge_dir_config_def check_duplicates_def
      seen_file_to_keys_def scan_events_def)

lemma map_of_dict_set: "map_of (dict_set d k v) = (map_of d)(k \<mapsto> v)"
  by (induction d) (auto simp: fun_eq_iff)

lemma keys_dict_set: "set (keys (dict_set d k v)) = insert k (set (keys d))"
proof -
  have "dom (map_of (dict_set d k v)) = insert k (dom (map_of d))"
    by (simp add: map_of_dict_set)
  then show ?thesis by (simp add: dom_map_of_conv_image_fst keys_def)
qed

lemma distinct_dict_set: "distinct (keys d) \<Longrightarrow> distinct (keys (dict_set d k v))"
proof (induction d)
  case Nil
  then show ?case by (simp add: keys_def)
next
  case (Cons a d)
  obtain k' v' where a: "a = (k', v')" by (cases a)
  have "set (map fst (dict_set d k v)) = insert k (set (map fst d))"
    using keys_dict_set [of d k v] by (simp add: keys_def)
  with Cons a show ?case by (auto simp: keys_def)
qed

lemma dict_set_not_Nil: "dict_set d k v \<noteq> []"
  by (cases d) (auto split: if_splits)

lemma foldl_dict_set_map_of:
  "map_of (foldl (\<lambda>acc (k, v). dict_set acc k v) d e) = map_of d ++ map_of (rev e)"
proof (induction e arbitrary: d)
  case Nil
  then show ?case by simp
next
  case (Cons a e)
  obtain k v where a: "a = (k, v)" by (cases a)
  show ?case
    by (simp add: a Cons map_of_dict_set map_add_upd_left fun_eq_iff map_add_def split: option.splits)
qed

lemma map_of_rev_distinct: "distinct (map fst e) \<Longrightarrow> map_of (rev e) = map_of e"
  by (rule map_of_inject_set [THEN iffD2]) (auto simp: rev_map [symmetric])

lemma map_of_dict_update:
  "distinct (keys e) \<Longrightarrow> map_of (dict_update d e) = map_of d ++ map_of e"
  by (simp add: dict_update_def foldl_dict_set_map_of map_of_rev_distinct keys_def)

lemma foldl_dict_set_Nil_iff:
  "foldl (\<lambda>acc (k, v). dict_set acc k v) d e = [] \<longleftrightarrow> d = [] \<and> e = []"
proof (induction e arbitrary: d)
  case Nil
  then show ?case by simp
next
  case (Cons a e)
  then show ?case by (cases a) (simp add: dict_set_not_Nil)
qed

lemma dict_update_Nil_iff: "dict_update d e = [] \<longleftrightarrow> d = [] \<and> e = []"
  by (simp add: dict_update_def foldl_dict_set_Nil_iff)

lemma keys_foldl_dict_set:
  "set (keys (foldl (\<lambda>acc (k, v). dict_set acc k v) d e)) = set (keys d) \<union> set (keys e)"
proof (induction e arbitrary: d)
  case Nil
  then show ?case by (simp add: keys_def)
next
  case (Cons a e)
  obtain k v where a: "a = (k, v)" by (cases a)
  have "set (keys (a # e)) = insert k (set (keys e))" by (simp add: a keys_def)
  then show ?case by (simp add: a Cons keys_dict_set)
qed

lemma keys_dict_update:
  "set (keys (dict_update d e)) = set (keys d) \<union> set (keys e)"
  by (simp add: dict_update_def keys_foldl_dict_set)

lemma getitem_base_error:
  assumes "\<not> contains (data self) key" and "map_of (config_patterns self) key = Some patterns"
    and "load_and_merge_dir_config w (base_path w self) patterns = (evs, Inl e)"
  shows "getitem w self key = (evs, Inl e)"
  using assms by (simp add: getitem_def)

lemma getitem_env_error:
  assumes "\<not> contains (data self) key" and "map_of (config_patterns self) key = Some patterns"
    and "load_and_merge_dir_config w (base_path w self) patterns = (evs1, Inr base_config)"
    and "load_and_merge_dir_config w (env_path w self) patterns = (evs2, Inl e)"
  shows "getitem w self key = (evs1 @ evs2, Inl e)"
  using assms by (simp add: getitem_def)

lemma getitem_compose:
  assumes "\<not> contains (data self) key" and "map_of (config_patterns self) key = Some patterns"
    and "load_and_merge_dir_config w (base_path w self) patterns = (evs1, Inr base_config)"
    and "load_and_merge_dir_config w (env_path w self) patterns = (evs2, Inr env_config)"
  shows "snd (getitem w self key) =
     (if base_config = [] \<and> env_config = []
      then Inl (MissingConfigException
                  (missing_message (base_path w self) (env_path w self) patterns))
      else Inr (dict_update base_config env_config))"
  using assms by (simp add: getitem_def Let_def dict_update_Nil_iff)

lemma pairwise_disjoint_Nil: "pairwise_disjoint []"
  by (simp add: pairwise_disjoint_def)

lemma pairwise_disjoint_Cons:
  "pairwise_disjoint (c # cs) \<longleftrightarrow>
     (\<forall>d\<in>set cs. set (keys c) \<inter> set (keys d) = {}) \<and> pairwise_disjoint cs"
proof
  assume pd: "pairwise_disjoint (c # cs)"
  have "set (keys c) \<inter> set (keys d) = {}" if "d \<in> set cs" for d
  proof -
    from that obtain n where n: "n < length cs" "cs ! n = d" by (auto simp: in_set_conv_nth)
    from pd have "set (keys ((c # cs) ! 0)) \<inter> set (keys ((c # cs) ! Suc n)) = {}"
      unfolding pairwise_disjoint_def using n(1) by (metis length_Cons not_less_eq zero_less_Suc)
    with n show ?thesis by simp
  qed
  moreover have "pairwise_disjoint cs"
    unfolding pairwise_disjoint_def
  proof (intro allI impI)
    fix i j assume "i < j \<and> j < length cs"
    then have "Suc i < Suc j \<and> Suc j < length (c # cs)" by simp
    with pd have "set (keys ((c # cs) ! Suc i)) \<inter> set (keys ((c # cs) ! Suc j)) = {}"
      unfolding pairwise_disjoint_def by blast
    then show "set (keys (cs ! i)) \<inter> set (keys (cs ! j)) = {}" by simp
  qed
  ultimately show "(\<forall>d\<in>set cs. set (keys c) \<inter> set (keys d) = {}) \<and> pairwise_disjoint cs"
    by blast
next
  assume a: "(\<forall>d\<in>set cs. set (keys c) \<inter> set (keys d) = {}) \<and> pairwise_disjoint cs"
  show "pairwise_disjoint (c # cs)"
    unfolding pairwise_disjoint_def
  proof (intro allI impI)
    fix i j assume ij: "i < j \<and> j < length (c # cs)"
    then obtain j' where j': "j = Suc j'" "j' < length cs" by (cases j) auto
    show "set (keys ((c # cs) ! i)) \<inter> set (keys ((c # cs) ! j)) = {}"
    proof (cases i)
      case 0
      with a j' show ?thesis by simp
    next
      case (Suc i')
      with ij j' have "i' < j' \<and> j' < length cs" by simp
      with a have "set (keys (cs ! i')) \<inter> set (keys (cs ! j')) = {}"
        unfolding pairwise_disjoint_def by blast
      with Suc j' show ?thesis by simp
    qed
  qed
qed

lemma set_inter_Nil_iff: "set_inter a b = [] \<longleftrightarrow> set a \<inter> set b = {}"
  by (auto simp: set_inter_def filter_empty_conv)

lemma set_set_inter: "set (set_inter a b) = set a \<inter> set b"
  by (auto simp: set_inter_def)

lemma duplicates_with_Nil_iff:
  "duplicates_with f1 k1 later = [] \<longleftrightarrow> (\<forall>(f2, k2)\<in>set later. set k1 \<inter> set k2 = {})"
proof (induction later)
  case Nil
  then show ?case by (simp add: duplicates_with_def)
next
  case (Cons a later)
  obtain f2 k2 where a: "a = (f2, k2)" by (cases a)
  have "duplicates_with f1 k1 (a # later) =
          (if set k1 \<inter> set k2 \<noteq> {} then [duplicate_message f1 f2 (set_inter k1 k2)] else [])
            @ duplicates_with f1 k1 later"
    by (simp add: duplicates_with_def a Let_def set_inter_Nil_iff)
  with Cons show ?case by (simp add: a)
qed

lemma duplicates_Nil_iff:
  "duplicates (seen_file_to_keys cpf) = [] \<longleftrightarrow> pairwise_disjoint (map snd cpf)"
proof (induction cpf)
  case Nil
  then show ?case by (simp add: seen_file_to_keys_def pairwise_disjoint_Nil)
next
  case (Cons a cpf)
  obtain f c where a: "a = (f, c)" by (cases a)
  have "duplicates_with f (remdups (keys c)) (seen_file_to_keys cpf) = []
          \<longleftrightarrow> (\<forall>d\<in>set (map snd cpf). set (keys c) \<inter> set (keys d) = {})"
    by (force simp: duplicates_with_Nil_iff seen_file_to_keys_def)
  with Cons show ?case
    using pairwise_disjoint_Cons [of c "map snd cpf"]
    by (simp add: a seen_file_to_keys_def)
qed

lemma merge2_step_keys:
  "set (keys (case map_of acc k of Some old \<Rightarrow> dict_set acc k (mg old v) | None \<Rightarrow> dict_set acc k v))
     = insert k (set (keys acc))"
  by (simp add: keys_dict_set split: option.splits)

lemma keys_merge2: "set (keys (merge2 mg a b)) = set (keys a) \<union> set (keys b)"
proof -
  have "set (keys (foldl (\<lambda>acc (k, v). case map_of acc k of
                             Some old \<Rightarrow> dict_set acc k (mg old v)
                           | None \<Rightarrow> dict_set acc k v) a b)) = set (keys a) \<union> set (keys b)"
  proof (induction b arbitrary: a)
    case Nil
    then show ?case by (simp add: keys_def)
  next
    case (Cons x b)
    obtain k v where x: "x = (k, v)" by (cases x)
    show ?case by (simp add: x Cons merge2_step_keys) (auto simp: keys_def)
  qed
  then show ?thesis by (simp add: merge2_def)
qed

lemma distinct_merge2: "distinct (keys a) \<Longrightarrow> distinct (keys (merge2 mg a b))"
proof -
  have "distinct (keys a) \<Longrightarrow>
        distinct (keys (foldl (\<lambda>acc (k, v). case map_of acc k of
                             Some old \<Rightarrow> dict_set acc k (mg old v)
                           | None \<Rightarrow> dict_set acc k v) a b))"
  proof (induction b arbitrary: a)
    case Nil
    then show ?case by simp
  next
    case (Cons x b)
    obtain k v where x: "x = (k, v)" by (cases x)
    from Cons.prems have "distinct (keys (case map_of a k of Some old \<Rightarrow> dict_set a k (mg old v)
                                                            | None \<Rightarrow> dict_set a k v))"
      by (simp add: distinct_dict_set split: option.splits)
    from Cons.IH [OF this] show ?case by (simp add: x)
  qed
  then show "distinct (keys a) \<Longrightarrow> distinct (keys (merge2 mg a b))" by (simp add: merge2_def)
qed

lemma map_of_merge2_disjoint:
  assumes "distinct (keys b)" and "set (keys a) \<inter> set (keys b) = {}"
  shows "map_of (merge2 mg a b) = map_of a ++ map_of b"
proof -
  have "distinct (keys b) \<Longrightarrow> set (keys a) \<inter> set (keys b) = {} \<Longrightarrow>
        map_of (foldl (\<lambda>acc (k, v). case map_of acc k of
                             Some old \<Rightarrow> dict_set acc k (mg old v)
                           | None \<Rightarrow> dict_set acc k v) a b) = map_of a ++ map_of b"
  proof (induction b arbitrary: a)
    case Nil
    then show ?case by simp
  next
    case (Cons x b)
    obtain k v where x: "x = (k, v)" by (cases x)
    from Cons.prems x have k: "k \<notin> set (keys a)" "k \<notin> set (keys b)" "distinct (keys b)"
      and d: "set (keys a) \<inter> set (keys b) = {}"
      by (auto simp: keys_def)
    from k(1) have none: "map_of a k = None"
      by (simp add: map_of_eq_None_iff keys_def)
    have d': "set (keys (dict_set a k v)) \<inter> set (keys b) = {}"
      using k(2) d by (simp add: keys_dict_set)
    have kb: "map_of b k = None"
      using k(2) by (simp add: map_of_eq_None_iff keys_def)
    let ?F = "\<lambda>acc (k, v). case map_of acc k of
                             Some old \<Rightarrow> dict_set acc k (mg old v)
                           | None \<Rightarrow> dict_set acc k v"
    have "map_of (foldl ?F a (x # b)) = map_of (foldl ?F (dict_set a k v) b)"
      by (simp add: x none)
    also have "\<dots> = map_of (dict_set a k v) ++ map_of b"
      by (rule Cons.IH [OF k(3) d'])
    also have "\<dots> = map_of a ++ map_of ((k, v) # b)"
      using kb by (auto simp: map_of_dict_set fun_eq_iff map_add_def split: option.splits)
    finally show ?case by (simp only: x)
  qed
  with assms show ?thesis by (simp add: merge2_def)
qed


lemma load_files_Cons_Inr:
  "load w p = Inr c \<Longrightarrow>
     load_files w acc (p # ps) =
       (Load p # fst (load_files w (dict_set acc p c) ps), snd (load_files w (dict_set acc p c) ps))"
  by (simp split: prod.splits)

lemma load_files_Cons_Inl:
  "load w p = Inl m \<Longrightarrow>
     load_files w acc (p # ps) = ([Load p], Inl (ParserError (parser_message p m)))"
  by simp

lemma load_files_Inr:
  "snd (load_files w acc ps) = Inr cpf \<longleftrightarrow>
     (\<forall>p\<in>set ps. \<exists>c. load w p = Inr c) \<and>
     cpf = foldl (\<lambda>acc p. dict_set acc p (projr (load w p))) acc ps"
proof (induction ps arbitrary: acc)
  case Nil
  then show ?case by auto
next
  case (Cons p ps)
  show ?case
  proof (cases "load w p")
    case (Inl m)
    then show ?thesis by auto
  next
    case (Inr c)
    then show ?thesis using Cons [of "dict_set acc p c"]
      by (simp add: load_files_Cons_Inr del: load_files.simps)
  qed
qed

lemma load_files_fst_Inr:
  "\<forall>p\<in>set ps. \<exists>c. load w p = Inr c \<Longrightarrow> fst (load_files w acc ps) = map Load ps"
proof (induction ps arbitrary: acc)
  case Nil
  then show ?case by simp
next
  case (Cons p ps)
  then obtain c where c: "load w p = Inr c" by auto
  obtain evs r where lf: "load_files w (dict_set acc p c) ps = (evs, r)"
    by (cases "load_files w (dict_set acc p c) ps")
  from Cons have "fst (load_files w (dict_set acc p c) ps) = map Load ps" by simp
  with lf c show ?case by simp
qed

lemma foldl_dict_set_fresh:
  "distinct ps \<Longrightarrow> set ps \<inter> set (keys acc) = {} \<Longrightarrow>
     foldl (\<lambda>acc p. dict_set acc p (f p)) acc ps = acc @ map (\<lambda>p. (p, f p)) ps"
proof (induction ps arbitrary: acc)
  case Nil
  then show ?case by simp
next
  case (Cons p ps)
  have fresh: "dict_set acc p (f p) = acc @ [(p, f p)]" if "p \<notin> set (keys acc)" for acc :: "('a \<times> 'b) list"
    using that by (induction acc) (auto simp: keys_def)
  from Cons.prems have p: "p \<notin> set (keys acc)" by auto
  from Cons.prems have "set ps \<inter> set (keys (acc @ [(p, f p)])) = {}" by (auto simp: keys_def)
  with Cons.IH [of "acc @ [(p, f p)]"] Cons.prems show ?case
    by (simp add: fresh [OF p])
qed

lemma load_files_distinct:
  assumes "distinct ps"
  shows "snd (load_files w [] ps) = Inr cpf \<longleftrightarrow>
     (\<forall>p\<in>set ps. \<exists>c. load w p = Inr c) \<and> cpf = map (\<lambda>p. (p, projr (load w p))) ps"
  using foldl_dict_set_fresh [OF assms, of "[]" "\<lambda>p. projr (load w p)"]
  by (simp add: load_files_Inr keys_def)

lemma load_files_first_error:
  assumes "\<forall>p\<in>set good. \<exists>c. load w p = Inr c" and "load w p = Inl m"
  shows "load_files w acc (good @ p # rest)
           = (map Load good @ [Load p], Inl (ParserError (parser_message p m)))"
  using assms
proof (induction good arbitrary: acc)
  case Nil
  then show ?case by simp
next
  case (Cons q good)
  then obtain c where c: "load w q = Inr c" by auto
  from Cons have "load_files w (dict_set acc q c) (good @ p # rest)
           = (map Load good @ [Load p], Inl (ParserError (parser_message p m)))"
    by simp
  with c show ?case by (simp add: load_files_Cons_Inr del: load_files.simps)
qed

lemma keys_foldl_merge2:
  "set (keys (foldl (merge2 mg) a cs)) = set (keys a) \<union> (\<Union>c\<in>set cs. set (keys c))"
  by (induction cs arbitrary: a) (auto simp: keys_merge2)

lemma distinct_foldl_merge2:
  "distinct (keys a) \<Longrightarrow> distinct (keys (foldl (merge2 mg) a cs))"
  by (induction cs arbitrary: a) (auto simp: distinct_merge2)

lemma map_of_keys_None: "k \<notin> set (keys c) \<Longrightarrow> map_of c k = None"
  by (simp add: map_of_eq_None_iff keys_def)

lemma map_of_keys_Some: "k \<in> set (keys c) \<Longrightarrow> \<exists>v. map_of c k = Some v"
  using map_of_keys_None [of k c] by (cases "map_of c k") (auto simp: keys_def map_of_eq_None_iff)

lemma keys_omegaconf_merge:
  "set (keys (omegaconf_merge mg cs)) = (\<Union>c\<in>set cs. set (keys c))"
proof (cases cs)
  case Nil
  then show ?thesis by (simp add: keys_def)
next
  case (Cons a cs')
  then show ?thesis by (simp add: keys_foldl_merge2)
qed

lemma distinct_omegaconf_merge:
  "\<forall>c\<in>set cs. distinct (keys c) \<Longrightarrow> distinct (keys (omegaconf_merge mg cs))"
proof (cases cs)
  case Nil
  then show ?thesis by (simp add: keys_def)
next
  case (Cons a cs')
  assume "\<forall>c\<in>set cs. distinct (keys c)"
  with Cons show ?thesis by (simp add: distinct_foldl_merge2)
qed

lemma merge2_step_disjoint:
  assumes "pairwise_disjoint (a # d # cs)"
  shows "set (keys a) \<inter> set (keys d) = {}"
    and "pairwise_disjoint (merge2 mg a d # cs)"
proof -
  from assms pairwise_disjoint_Cons [of a "d # cs"]
  have a_dcs: "\<forall>e\<in>set (d # cs). set (keys a) \<inter> set (keys e) = {}"
    and pd_dcs: "pairwise_disjoint (d # cs)" by blast+
  from pd_dcs pairwise_disjoint_Cons [of d cs]
  have d_cs: "\<forall>e\<in>set cs. set (keys d) \<inter> set (keys e) = {}"
    and pd: "pairwise_disjoint cs" by blast+
  from a_dcs show ad: "set (keys a) \<inter> set (keys d) = {}" by simp
  from a_dcs have a_cs: "\<forall>e\<in>set cs. set (keys a) \<inter> set (keys e) = {}" by simp
  have "\<forall>e\<in>set cs. set (keys (merge2 mg a d)) \<inter> set (keys e) = {}"
  proof
    fix e assume e: "e \<in> set cs"
    with a_cs d_cs have "set (keys a) \<inter> set (keys e) = {}" "set (keys d) \<inter> set (keys e) = {}"
      by blast+
    then show "set (keys (merge2 mg a d)) \<inter> set (keys e) = {}"
      unfolding keys_merge2 by blast
  qed
  with pd pairwise_disjoint_Cons [of "merge2 mg a d" cs]
  show "pairwise_disjoint (merge2 mg a d # cs)" by blast
qed

lemma merge2_either:
  assumes "distinct (keys d)" and "set (keys a) \<inter> set (keys d) = {}"
    and "c = a \<or> c = d" and "k \<in> set (keys c)"
  shows "map_of (merge2 mg a d) k = map_of c k"
proof -
  have m: "map_of (merge2 mg a d) k = (map_of a ++ map_of d) k"
    by (simp only: map_of_merge2_disjoint [OF assms(1,2), of mg])
  show ?thesis
  proof (cases "k \<in> set (keys d)")
    case True
    with assms(2,3,4) have "c = d" by blast
    moreover from map_of_keys_Some [OF True] obtain v where "map_of d k = Some v" ..
    ultimately show ?thesis unfolding m by (simp add: map_add_def)
  next
    case False
    with assms(3,4) have "c = a" by blast
    with map_of_keys_None [OF False] show ?thesis unfolding m by (simp add: map_add_def)
  qed
qed

lemma map_of_foldl_merge2:
  assumes "pairwise_disjoint (a # cs)" and "\<forall>c\<in>set cs. distinct (keys c)"
    and "c \<in> set (a # cs)" and "k \<in> set (keys c)"
  shows "map_of (foldl (merge2 mg) a cs) k = map_of c k"
  using assms
proof (induction cs arbitrary: a c)
  case Nil
  then show ?case by simp
next
  case (Cons d cs)
  note ad = merge2_step_disjoint(1) [OF Cons.prems(1)]
  note pd' = merge2_step_disjoint(2) [OF Cons.prems(1), of mg]
  from Cons.prems(2) have dd: "distinct (keys d)" and dcs: "\<forall>c\<in>set cs. distinct (keys c)"
    by simp_all
  have fold: "foldl (merge2 mg) a (d # cs) = foldl (merge2 mg) (merge2 mg a d) cs" by simp
  show ?case
  proof (cases "c \<in> set cs")
    case True
    then have "c \<in> set (merge2 mg a d # cs)" by simp
    from Cons.IH [OF pd' dcs this Cons.prems(4)] show ?thesis by (simp only: fold)
  next
    case False
    with Cons.prems(3) have c: "c = a \<or> c = d" by simp
    have k: "k \<in> set (keys (merge2 mg a d))"
      unfolding keys_merge2 using c Cons.prems(4) by blast
    have "merge2 mg a d \<in> set (merge2 mg a d # cs)" by simp
    from Cons.IH [OF pd' dcs this k]
    have "map_of (foldl (merge2 mg) (merge2 mg a d) cs) k = map_of (merge2 mg a d) k" .
    also have "\<dots> = map_of c k"
      by (rule merge2_either [OF dd ad c Cons.prems(4)])
    finally show ?thesis by (simp only: fold)
  qed
qed

lemma map_of_omegaconf_merge:
  assumes "pairwise_disjoint cs" and "\<forall>c\<in>set cs. distinct (keys c)"
    and "c \<in> set cs" and "k \<in> set (keys c)"
  shows "map_of (omegaconf_merge mg cs) k = map_of c k"
proof (cases cs)
  case Nil
  with assms show ?thesis by simp
next
  case (Cons a cs')
  from assms(2) Cons have "\<forall>c\<in>set cs'. distinct (keys c)" by simp
  from map_of_foldl_merge2 [OF assms(1) [unfolded Cons] this assms(3) [unfolded Cons] assms(4)]
  show ?thesis by (simp add: Cons)
qed

lemma load_and_merge_missing:
  "\<not> is_dir w p \<Longrightarrow>
     load_and_merge_dir_config w p ps =
       ([IsDir p], Inl (MissingConfigException
                          (''Given configuration path either does not exist ''
                             @ ''or is not a valid directory: '' @ p)))"
  by (simp add: load_and_merge_dir_config_def)

lemma load_and_merge_parse_error:
  "is_dir w p \<Longrightarrow> load_files w [] (config_files_filtered w p ps) = (evs, Inl e) \<Longrightarrow>
     load_and_merge_dir_config w p ps = (scan_events w p ps @ evs, Inl e)"
  by (simp add: load_and_merge_dir_config_def)

lemma load_and_merge_loaded:
  "is_dir w p \<Longrightarrow> load_files w [] (config_files_filtered w p ps) = (evs, Inr cpf) \<Longrightarrow>
     load_and_merge_dir_config w p ps =
       (scan_events w p ps @ evs @ fst (merge_dir_config w cpf), snd (merge_dir_config w cpf))"
  by (simp add: load_and_merge_dir_config_def split: prod.splits)

lemma load_and_merge_Inr_cases:
  assumes "snd (load_and_merge_dir_config w p ps) = Inr c"
  obtains evs cpf where "is_dir w p"
    and "load_files w [] (config_files_filtered w p ps) = (evs, Inr cpf)"
    and "snd (merge_dir_config w cpf) = Inr c"
proof (cases "is_dir w p")
  case False
  with assms show ?thesis by (simp add: load_and_merge_missing)
next
  case True
  obtain evs r where lf: "load_files w [] (config_files_filtered w p ps) = (evs, r)"
    by (cases "load_files w [] (config_files_filtered w p ps)")
  show ?thesis
  proof (cases r)
    case (Inl e)
    with assms True lf show ?thesis by (simp add: load_and_merge_parse_error)
  next
    case (Inr cpf)
    with assms True lf have "snd (merge_dir_config w cpf) = Inr c"
      by (simp add: load_and_merge_loaded)
    with True lf Inr that show ?thesis by blast
  qed
qed

lemma merge_dir_config_duplicates:
  "duplicates (seen_file_to_keys cpf) \<noteq> [] \<Longrightarrow>
     merge_dir_config w cpf =
       ([], Inl (ValueError (join [CHR 0x0A] (duplicates (seen_file_to_keys cpf)))))"
  by (simp add: merge_dir_config_def check_duplicates_def Let_def)

lemma merge_dir_config_disjoint:
  "pairwise_disjoint (map snd cpf) \<Longrightarrow>
     merge_dir_config w cpf =
       (if length cpf \<le> 1 then [] else [Merge],
        Inr (if cpf = [] then [] else if length cpf = 1 then snd (hd cpf)
             else omegaconf_merge (merge_value w) (map snd cpf)))"
  by (cases cpf) (simp_all add: merge_dir_config_def check_duplicates_def Let_def duplicates_Nil_iff)

lemma merge_dir_config_Inr_disjoint:
  "snd (merge_dir_config w cpf) = Inr c \<Longrightarrow> pairwise_disjoint (map snd cpf)"
  using merge_dir_config_duplicates [of cpf w] duplicates_Nil_iff [of cpf]
  by (cases "duplicates (seen_file_to_keys cpf) = []") simp_all

lemma omegaconf_merge_single: "omegaconf_merge mg [c] = c"
  by simp

lemma merge_dir_config_Inr:
  assumes "snd (merge_dir_config w cpf) = Inr c"
  shows "c = omegaconf_merge (merge_value w) (map snd cpf)"
proof -
  from assms have pd: "pairwise_disjoint (map snd cpf)" by (rule merge_dir_config_Inr_disjoint)
  show ?thesis
  proof (cases cpf)
    case Nil
    with assms pd show ?thesis by (simp add: merge_dir_config_disjoint)
  next
    case (Cons x xs)
    with assms pd show ?thesis by (cases xs) (simp_all add: merge_dir_config_disjoint)
  qed
qed

lemma set_dict_set: "set (dict_set d k v) \<subseteq> insert (k, v) (set d)"
  by (induction d) (auto split: if_splits)

lemma load_files_values:
  assumes "snd (load_files w acc ps) = Inr cpf" and "(p, c) \<in> set cpf"
  shows "(p, c) \<in> set acc \<or> load w p = Inr c"
  using assms
proof (induction ps arbitrary: acc)
  case Nil
  then show ?case by simp
next
  case (Cons q ps)
  show ?case
  proof (cases "load w q")
    case (Inl m)
    with Cons.prems show ?thesis by simp
  next
    case (Inr d)
    with Cons.prems have "snd (load_files w (dict_set acc q d) ps) = Inr cpf"
      by (simp add: load_files_Cons_Inr del: load_files.simps)
    from Cons.IH [OF this Cons.prems(2)]
    have "(p, c) \<in> set (dict_set acc q d) \<or> load w p = Inr c" .
    with set_dict_set [of acc q d] Inr show ?thesis by blast
  qed
qed

lemma load_files_distinct_keys:
  assumes "load_ok w" and "snd (load_files w [] ps) = Inr cpf"
  shows "\<forall>c\<in>set (map snd cpf). distinct (keys c)"
proof
  fix c assume "c \<in> set (map snd cpf)"
  then obtain p where "(p, c) \<in> set cpf" by auto
  from load_files_values [OF assms(2) this] have "load w p = Inr c" by simp
  with assms(1) show "distinct (keys c)" unfolding load_ok_def by blast
qed

lemma load_and_merge_distinct:
  assumes "load_ok w" and "snd (load_and_merge_dir_config w p ps) = Inr c"
  shows "distinct (keys c)"
proof -
  from assms(2) obtain evs cpf
    where lf: "load_files w [] (config_files_filtered w p ps) = (evs, Inr cpf)"
      and m: "snd (merge_dir_config w cpf) = Inr c"
    by (rule load_and_merge_Inr_cases)
  from lf have "snd (load_files w [] (config_files_filtered w p ps)) = Inr cpf" by simp
  from load_files_distinct_keys [OF assms(1) this]
  have "distinct (keys (omegaconf_merge (merge_value w) (map snd cpf)))"
    by (rule distinct_omegaconf_merge)
  with merge_dir_config_Inr [OF m] show ?thesis by simp
qed

lemma distinct_config_files_filtered:
  "set_iter_ok w \<Longrightarrow> distinct (config_files_filtered w p ps)"
  unfolding config_files_filtered_def deduplicated_paths_def set_iter_ok_def
  by (rule distinct_filter) blast

lemma example_world_load_ok:
  assumes "\<forall>r\<in>set (map snd files). case r of Inl m \<Rightarrow> True | Inr c \<Rightarrow> distinct (keys c)"
  shows "load_ok (example_world dirs globs files order)"
  unfolding load_ok_def
proof (intro allI impI)
  fix p c
  assume l: "load (example_world dirs globs files order) p = Inr c"
  show "distinct (keys c)"
  proof (cases "map_of files p")
    case None
    with l show ?thesis by (simp add: example_world_def keys_def)
  next
    case (Some r)
    with l have "r = Inr c" by (simp add: example_world_def)
    moreover from Some have "r \<in> set (map snd files)"
      by (metis map_of_SomeD image_eqI set_map snd_conv)
    ultimately show ?thesis using assms by force
  qed
qed

lemma example_loader_facts:
  "\<not> contains (data example_loader) ''catalog''"
  "map_of (config_patterns example_loader) ''catalog'' = Some catalog_patterns"
  by (simp_all add: example_loader_def init_def contains_def keys_def default_patterns_def
      dict_update_def catalog_patterns_def)

lemma example_paths:
  "base_path (example_world dirs globs files order) example_loader = ''conf/base''"
  "env_path (example_world dirs globs files order) example_loader = ''conf/local''"
  by (simp_all add: base_path_def env_path_def run_env_def example_world_def example_loader_def
      init_def)

lemma layered_world_load_ok: "load_ok layered_world"
  unfolding layered_world_def by (rule example_world_load_ok) (simp add: keys_def)

lemma layered_world_base:
  "snd (load_and_merge_dir_config layered_world ''conf/base'' catalog_patterns)
     = Inr [(''a'', 1), (''b'', 2)]"
  by code_simp

lemma layered_world_env:
  "snd (load_and_merge_dir_config layered_world ''conf/local'' catalog_patterns)
     = Inr [(''b'', 3), (''c'', 4)]"
  by code_simp

lemma empty_world_dirs:
  "snd (load_and_merge_dir_config empty_world ''conf/base'' catalog_patterns) = Inr []"
  "snd (load_and_merge_dir_config empty_world ''conf/local'' catalog_patterns) = Inr []"
  by code_simp+

lemma first_malformed:
  assumes "q \<in> set ps" and "load w q = Inl mq"
  obtains good p rest m where "ps = good @ p # rest" and "load w p = Inl m"
    and "\<forall>x\<in>set good. \<exists>c. load w x = Inr c"
proof -
  from assms have "\<exists>x\<in>set ps. \<exists>m. load w x = Inl m" by blast
  from split_list_first_prop [OF this]
  obtain good p rest where ps: "ps = good @ p # rest" and p: "\<exists>m. load w p = Inl m"
    and g: "\<forall>x\<in>set good. \<not> (\<exists>m. load w x = Inl m)" by blast
  from p obtain m where m: "load w p = Inl m" ..
  have "\<forall>x\<in>set good. \<exists>c. load w x = Inr c"
  proof
    fix x assume "x \<in> set good"
    with g have "\<not> (\<exists>m. load w x = Inl m)" by blast
    then show "\<exists>c. load w x = Inr c" by (cases "load w x") simp_all
  qed
  with ps m that show ?thesis by blast
qed

lemma load_and_merge_first_malformed:
  assumes "is_dir w conf_path"
    and "config_files_filtered w conf_path patterns = good @ p # rest"
    and "\<forall>x\<in>set good. \<exists>c. load w x = Inr c" and "load w p = Inl m"
  shows "load_and_merge_dir_config w conf_path patterns =
           (scan_events w conf_path patterns @ map Load good @ [Load p],
            Inl (ParserError (parser_message p m)))"
proof -
  from load_files_first_error [OF assms(3,4), of "[]" rest] assms(2)
  have "load_files w [] (config_files_filtered w conf_path patterns)
          = (map Load good @ [Load p], Inl (ParserError (parser_message p m)))" by simp
  from load_and_merge_parse_error [OF assms(1) this] show ?thesis by simp
qed

lemma load_and_merge_loaded_snd:
  assumes "is_dir w p" and "snd (load_files w [] (config_files_filtered w p ps)) = Inr cpf"
  shows "snd (load_and_merge_dir_config w p ps) = snd (merge_dir_config w cpf)"
proof -
  from assms(2) obtain evs where "load_files w [] (config_files_filtered w p ps) = (evs, Inr cpf)"
    by (cases "load_files w [] (config_files_filtered w p ps)") simp
  from load_and_merge_loaded [OF assms(1) this] show ?thesis by simp
qed

lemma example_world_is_dir_base:
  "is_dir empty_world ''conf/base''" "is_dir layered_world ''conf/base''"
  "is_dir two_file_world ''conf/base''"
  by code_simp+

lemma example_world_load_oks: "load_ok empty_world" "load_ok two_file_world"
  unfolding empty_world_def two_file_world_def
  by (rule example_world_load_ok, simp add: keys_def)+










lemma pairwise_disjoint_map_distinct:
  "distinct xs \<Longrightarrow>
     pairwise_disjoint (map h xs) \<longleftrightarrow>
       (\<forall>x\<in>set xs. \<forall>y\<in>set xs. x \<noteq> y \<longrightarrow> set (keys (h x)) \<inter> set (keys (h y)) = {})"
proof (induction xs)
  case Nil
  then show ?case by (simp add: pairwise_disjoint_Nil)
next
  case (Cons a xs)
  from Cons.prems have a: "a \<notin> set xs" and d: "distinct xs" by simp_all
  have c: "pairwise_disjoint (map h (a # xs)) \<longleftrightarrow>
          (\<forall>y\<in>set xs. set (keys (h a)) \<inter> set (keys (h y)) = {}) \<and> pairwise_disjoint (map h xs)"
    by (simp add: pairwise_disjoint_Cons)
  show ?case unfolding c Cons.IH [OF d]
  proof
    assume l: "(\<forall>y\<in>set xs. set (keys (h a)) \<inter> set (keys (h y)) = {}) \<and>
      (\<forall>x\<in>set xs. \<forall>y\<in>set xs. x \<noteq> y \<longrightarrow> set (keys (h x)) \<inter> set (keys (h y)) = {})"
    show "\<forall>x\<in>set (a # xs). \<forall>y\<in>set (a # xs). x \<noteq> y \<longrightarrow> set (keys (h x)) \<inter> set (keys (h y)) = {}"
    proof (intro ballI impI)
      fix x y assume x: "x \<in> set (a # xs)" and y: "y \<in> set (a # xs)" and ne: "x \<noteq> y"
      show "set (keys (h x)) \<inter> set (keys (h y)) = {}"
      proof (cases "x = a")
        case True
        with y ne have "y \<in> set xs" by auto
        with l True show ?thesis by blast
      next
        case xa: False
        with x have xs: "x \<in> set xs" by simp
        show ?thesis
        proof (cases "y = a")
          case True
          with l xs have "set (keys (h a)) \<inter> set (keys (h x)) = {}" by blast
          with True show ?thesis by (simp add: Int_commute)
        next
          case False
          with y have "y \<in> set xs" by simp
          with l xs ne show ?thesis by blast
        qed
      qed
    qed
  next
    assume r: "\<forall>x\<in>set (a # xs). \<forall>y\<in>set (a # xs). x \<noteq> y \<longrightarrow> set (keys (h x)) \<inter> set (keys (h y)) = {}"
    have "\<forall>y\<in>set xs. set (keys (h a)) \<inter> set (keys (h y)) = {}"
    proof
      fix y assume y: "y \<in> set xs"
      with a have "a \<noteq> y" by blast
      moreover have "a \<in> set (a # xs)" "y \<in> set (a # xs)" using y by simp_all
      ultimately show "set (keys (h a)) \<inter> set (keys (h y)) = {}" using r by blast
    qed
    moreover have "\<forall>x\<in>set xs. \<forall>y\<in>set xs. x \<noteq> y \<longrightarrow> set (keys (h x)) \<inter> set (keys (h y)) = {}"
    proof (intro ballI impI)
      fix x y assume "x \<in> set xs" "y \<in> set xs" "x \<noteq> y"
      then have "x \<in> set (a # xs)" "y \<in> set (a # xs)" "x \<noteq> y" by simp_all
      with r show "set (keys (h x)) \<inter> set (keys (h y)) = {}" by blast
    qed
    ultimately show "(\<forall>y\<in>set xs. set (keys (h a)) \<inter> set (keys (h y)) = {}) \<and>
      (\<forall>x\<in>set xs. \<forall>y\<in>set xs. x \<noteq> y \<longrightarrow> set (keys (h x)) \<inter> set (keys (h y)) = {})"
      by blast
  qed
qed

lemma same_files_filtered:
  assumes "same_files w w'" and "set_iter_ok w" and "set_iter_ok w'"
  shows "set (config_files_filtered w' p ps) = set (config_files_filtered w p ps)"
proof -
  from assms(1) have g: "\<And>g. set (iglob w' g) = set (iglob w g)"
    and r: "resolve w' = resolve w" and f: "is_file w' = is_file w"
    unfolding same_files_def by blast+
  have "set (paths w' p ps) = set (paths w p ps)"
    unfolding paths_def by (simp add: g r)
  moreover from assms(2) have "set (set_iter w (paths w p ps)) = set (paths w p ps)"
    unfolding set_iter_ok_def by blast
  moreover from assms(3) have "set (set_iter w' (paths w' p ps)) = set (paths w' p ps)"
    unfolding set_iter_ok_def by blast
  ultimately have "set (deduplicated_paths w' p ps) = set (deduplicated_paths w p ps)"
    by (simp add: deduplicated_paths_def)
  moreover have "is_valid_config_path w' = is_valid_config_path w"
    by (simp add: fun_eq_iff is_valid_config_path_def f)
  ultimately show ?thesis by (simp add: config_files_filtered_def)
qed

lemma map_of_eq_Nil_iff: "map_of c' = map_of c \<Longrightarrow> c' = [] \<longleftrightarrow> c = []"
proof -
  assume "map_of c' = map_of c"
  then have "dom (map_of c') = dom (map_of c)" by simp
  then have "fst ` set c' = fst ` set c" by (simp add: dom_map_of_conv_image_fst)
  then show ?thesis by (cases c; cases c') auto
qed

lemma map_of_eq_keys: "map_of c' = map_of c \<Longrightarrow> set (keys c') = set (keys c)"
proof -
  assume "map_of c' = map_of c"
  then have "dom (map_of c') = dom (map_of c)" by simp
  then show ?thesis by (simp add: dom_map_of_conv_image_fst keys_def)
qed

lemma same_files_load_ok: "same_files w w' \<Longrightarrow> load_ok w \<Longrightarrow> load_ok w'"
  by (simp add: same_files_def load_ok_def)

lemma directory_enumeration_independent:
  assumes sf: "same_files w w'" and ok: "set_iter_ok w" and ok': "set_iter_ok w'"
    and lo: "load_ok w"
    and r: "snd (load_and_merge_dir_config w p ps) = Inr c"
  shows "\<exists>c'. snd (load_and_merge_dir_config w' p ps) = Inr c' \<and> map_of c' = map_of c"
proof -
  let ?F = "config_files_filtered w p ps" and ?F' = "config_files_filtered w' p ps"
  let ?h = "\<lambda>x. projr (load w x)"
  from sf have ld: "load w' = load w" and dr: "is_dir w' = is_dir w"
    and mv: "merge_value w' = merge_value w"
    unfolding same_files_def by blast+
  from r obtain evs cpf where d: "is_dir w p"
    and lf: "load_files w [] ?F = (evs, Inr cpf)"
    and m: "snd (merge_dir_config w cpf) = Inr c"
    by (rule load_and_merge_Inr_cases)
  note dF = distinct_config_files_filtered [OF ok, of p ps]
  note dF' = distinct_config_files_filtered [OF ok', of p ps]
  note sF = same_files_filtered [OF sf ok ok', of p ps]
  from lf have "snd (load_files w [] ?F) = Inr cpf" by simp
  then have all: "\<forall>x\<in>set ?F. \<exists>c. load w x = Inr c" and cpf: "cpf = map (\<lambda>x. (x, ?h x)) ?F"
    unfolding load_files_distinct [OF dF] by blast+
  define cpf' where "cpf' = map (\<lambda>x. (x, ?h x)) ?F'"
  from all sF have "(\<forall>x\<in>set ?F'. \<exists>c. load w' x = Inr c) \<and>
                    cpf' = map (\<lambda>x. (x, projr (load w' x))) ?F'"
    by (simp add: ld cpf'_def)
  then have lf': "snd (load_files w' [] ?F') = Inr cpf'"
    unfolding load_files_distinct [OF dF'] .
  have s: "map snd cpf = map ?h ?F" "map snd cpf' = map ?h ?F'"
    by (simp_all add: cpf cpf'_def o_def)
  from m have "pairwise_disjoint (map snd cpf)" by (rule merge_dir_config_Inr_disjoint)
  then have "\<forall>x\<in>set ?F. \<forall>y\<in>set ?F. x \<noteq> y \<longrightarrow> set (keys (?h x)) \<inter> set (keys (?h y)) = {}"
    unfolding s pairwise_disjoint_map_distinct [OF dF] .
  then have "\<forall>x\<in>set ?F'. \<forall>y\<in>set ?F'. x \<noteq> y \<longrightarrow> set (keys (?h x)) \<inter> set (keys (?h y)) = {}"
    unfolding sF .
  then have pd': "pairwise_disjoint (map snd cpf')"
    unfolding s pairwise_disjoint_map_distinct [OF dF'] .
  from m have pd: "pairwise_disjoint (map snd cpf)" by (rule merge_dir_config_Inr_disjoint)
  let ?c' = "omegaconf_merge (merge_value w) (map snd cpf')"
  from pd' have m': "snd (merge_dir_config w' cpf') = Inr ?c'"
    by (cases cpf' rule: list.exhaust [case_product list.exhaust [of "tl cpf'"]])
      (simp_all add: merge_dir_config_disjoint mv)
  from d have d': "is_dir w' p" by (simp add: dr)
  from load_and_merge_loaded_snd [OF d' lf'] m'
  have r': "snd (load_and_merge_dir_config w' p ps) = Inr ?c'" by simp
  have c: "c = omegaconf_merge (merge_value w) (map snd cpf)"
    by (rule merge_dir_config_Inr [OF m])
  have ss: "set (map snd cpf') = set (map snd cpf)"
    unfolding s by (simp add: sF)
  from lf have dk: "\<forall>c\<in>set (map snd cpf). distinct (keys c)"
    by (intro load_files_distinct_keys [OF lo, of ?F]) simp
  then have dk': "\<forall>c\<in>set (map snd cpf'). distinct (keys c)"
    unfolding ss .
  have "map_of ?c' k = map_of c k" for k
  proof (cases "\<exists>x\<in>set (map snd cpf). k \<in> set (keys x)")
    case True
    then obtain x where x: "x \<in> set (map snd cpf)" and k: "k \<in> set (keys x)" by blast
    from x have x': "x \<in> set (map snd cpf')" unfolding ss .
    have "map_of c k = map_of x k"
      unfolding c by (rule map_of_omegaconf_merge [OF pd dk x k])
    moreover have "map_of ?c' k = map_of x k"
      by (rule map_of_omegaconf_merge [OF pd' dk' x' k])
    ultimately show ?thesis by simp
  next
    case False
    then have "k \<notin> set (keys c)" unfolding c keys_omegaconf_merge by blast
    moreover from False have "k \<notin> set (keys ?c')" unfolding keys_omegaconf_merge ss by blast
    ultimately show ?thesis by (simp add: map_of_keys_None)
  qed
  then have "map_of ?c' = map_of c" by (simp add: fun_eq_iff)
  with r' show ?thesis by blast
qed

lemma getitem_Inr_cases:
  assumes "snd (getitem w self key) = Inr config"
  obtains (preset) "contains (data self) key" and "super_getitem self key = Inr config"
  | (loaded) patterns base_config env_config
    where "\<not> contains (data self) key" and "map_of (config_patterns self) key = Some patterns"
      and "snd (load_and_merge_dir_config w (base_path w self) patterns) = Inr base_config"
      and "snd (load_and_merge_dir_config w (env_path w self) patterns) = Inr env_config"
      and "config = dict_update base_config env_config" and "config \<noteq> []"
proof (cases "contains (data self) key")
  case True
  with assms have "super_getitem self key = Inr config" by (simp add: getitem_def)
  with True show ?thesis by (rule preset)
next
  case nc: False
  show ?thesis
  proof (cases "map_of (config_patterns self) key")
    case None
    with assms nc show ?thesis by (simp add: getitem_def)
  next
    case (Some patterns)
    obtain evs1 r1 where b: "load_and_merge_dir_config w (base_path w self) patterns = (evs1, r1)"
      by (cases "load_and_merge_dir_config w (base_path w self) patterns")
    show ?thesis
    proof (cases r1)
      case (Inl e)
      from getitem_base_error [OF nc Some b [unfolded Inl]] assms show ?thesis by simp
    next
      case bc: (Inr base_config)
      obtain evs2 r2 where e: "load_and_merge_dir_config w (env_path w self) patterns = (evs2, r2)"
        by (cases "load_and_merge_dir_config w (env_path w self) patterns")
      show ?thesis
      proof (cases r2)
        case (Inl e')
        from getitem_env_error [OF nc Some b [unfolded bc] e [unfolded Inl]] assms
        show ?thesis by simp
      next
        case ec: (Inr env_config)
        from getitem_compose [OF nc Some b [unfolded bc] e [unfolded ec]] assms
        have "config = dict_update base_config env_config" and "config \<noteq> []"
          by (simp_all add: dict_update_Nil_iff split: if_splits)
        moreover from b bc
        have "snd (load_and_merge_dir_config w (base_path w self) patterns) = Inr base_config"
          by simp
        moreover from e ec
        have "snd (load_and_merge_dir_config w (env_path w self) patterns) = Inr env_config"
          by simp
        ultimately show ?thesis using nc Some by (intro loaded)
      qed
    qed
  qed
qed

lemma two_file_worlds_same: "same_files two_file_world two_file_world'"
  unfolding same_files_def two_file_world_def two_file_world'_def example_world_def
  by (auto split: if_splits)

lemma two_file_world_ok:
  "set_iter_ok two_file_world" "set_iter_ok two_file_world'"
  unfolding two_file_world_def two_file_world'_def by (rule example_world_set_iter_ok)+

subsection \<open>Pre-set values and unknown keys\<close>

text \<open>
  C8: when the caller has pre-set a value for a logical key on the loader, a lookup of the
  key returns that value at once: no call leaves the loader, the result is the same in
  every world and with every pattern table, and it is never an error.
\<close>

theorem getitem_preset:
  "map_of (data self) key = Some v \<Longrightarrow>
     getitem w (self\<lparr>config_patterns := cps\<rparr>) key = ([], Inr v)"
  by (simp add: getitem_def contains_map_of super_getitem_def)

theorem getitem_preset_witness:
  "map_of (data preset_loader) ''catalog'' = Some [(''x'', 7)] \<and>
   getitem empty_world (preset_loader\<lparr>config_patterns := []\<rparr>) ''catalog''
     = ([], Inr [(''x'', 7)])"
proof -
  have h: "map_of (data preset_loader) ''catalog'' = Some [(''x'', 7)]"
    by (simp add: preset_loader_def)
  from getitem_preset [OF h, of empty_world "[]"] h show ?thesis by simp
qed

text \<open>
  C9: a lookup of a key that has no pre-set value and no entry in the pattern table fails
  with the unknown-key error, whose message names the key, and no call has left the loader.
\<close>

theorem getitem_unknown_key:
  "\<not> contains (data self) key \<Longrightarrow> \<not> contains (config_patterns self) key \<Longrightarrow>
     getitem w self key =
       ([], Inl (KeyError (''No config patterns were found for '' @ [CHR 0x27] @ key @ [CHR 0x27]
                            @ '' in your config loader'')))"
  by (simp add: getitem_def contains_map_of unknown_key_message_def)

theorem getitem_unknown_key_witness:
  "\<not> contains (data example_loader) ''spark'' \<and>
   \<not> contains (config_patterns example_loader) ''spark'' \<and>
   getitem empty_world example_loader ''spark'' =
     ([], Inl (KeyError (''No config patterns were found for '' @ [CHR 0x27] @ ''spark''
                          @ [CHR 0x27] @ '' in your config loader'')))"
proof -
  have h1: "\<not> contains (data example_loader) ''spark''"
    by (simp add: example_loader_def init_def contains_def keys_def)
  have h2: "\<not> contains (config_patterns example_loader) ''spark''"
    by (simp add: example_loader_def init_def contains_def keys_def default_patterns_def
        dict_update_def)
  from getitem_unknown_key [OF h1 h2, of empty_world] h1 h2 show ?thesis by simp
qed

text \<open>
  C10: a key that the pattern table maps to the empty list of patterns is a known key. With
  no pre-set value and both directories present, its lookup checks the two directories,
  expands no pattern, finds no file and fails with the missing-configuration error, not
  with the unknown-key error.
\<close>

theorem getitem_empty_pattern_list:
  assumes "\<not> contains (data self) key"
    and "map_of (config_patterns self) key = Some []"
    and "is_dir w (base_path w self)" and "is_dir w (env_path w self)"
    and "set_iter_ok w"
  shows "contains (config_patterns self) key \<and>
         getitem w self key =
           ([IsDir (base_path w self), IsDir (env_path w self)],
            Inl (MissingConfigException
                   (''No files of YAML or JSON format found in '' @ base_path w self @ '' or ''
                      @ env_path w self @ '' matching the glob pattern(s): []'')))"
  using assms
  by (simp add: getitem_def contains_map_of load_and_merge_no_patterns set_inter_def keys_def
      dict_update_def missing_message_def repr_list_def)

theorem getitem_empty_pattern_list_witness:
  "\<not> contains (data spark_loader) ''spark'' \<and>
   map_of (config_patterns spark_loader) ''spark'' = Some [] \<and>
   is_dir empty_world (base_path empty_world spark_loader) \<and>
   is_dir empty_world (env_path empty_world spark_loader) \<and>
   set_iter_ok empty_world \<and>
   getitem empty_world spark_loader ''spark'' =
     ([IsDir ''conf/base'', IsDir ''conf/local''],
      Inl (MissingConfigException
             (''No files of YAML or JSON format found in conf/base or conf/local''
                @ '' matching the glob pattern(s): []'')))"
proof -
  have h1: "\<not> contains (data spark_loader) ''spark''"
    by (simp add: spark_loader_def init_def contains_def keys_def)
  have h2: "map_of (config_patterns spark_loader) ''spark'' = Some []"
    by (simp add: spark_loader_def init_def default_patterns_def dict_update_def)
  have b: "base_path empty_world spark_loader = ''conf/base''"
    by (simp add: base_path_def empty_world_def example_world_def spark_loader_def init_def)
  have e: "env_path empty_world spark_loader = ''conf/local''"
    by (simp add: env_path_def run_env_def empty_world_def example_world_def spark_loader_def
        init_def)
  have h3: "is_dir empty_world (base_path empty_world spark_loader)"
    by (simp add: b) (simp add: empty_world_def example_world_def)
  have h4: "is_dir empty_world (env_path empty_world spark_loader)"
    by (simp add: e) (simp add: empty_world_def example_world_def)
  have h5: "set_iter_ok empty_world"
    unfolding empty_world_def by (rule example_world_set_iter_ok)
  from getitem_empty_pattern_list [OF h1 h2 h3 h4 h5] h1 h2 h3 h4 h5 show ?thesis
    by (simp add: b e)
qed

subsection \<open>Composition of the base and the environment layer\<close>

text \<open>
  C1: when the lookup of a key composes a base tree and an environment tree (both
  directories load, and not both trees are empty), it returns a tree in which every
  top-level key of the environment tree has the environment's value, whole, and every other
  key has what the base tree has for it: keys of one tree only pass through, nothing is
  merged below the top level. The base \<^verbatim>\<open>{a: 1, b: 2}\<close> with the environment
  \<^verbatim>\<open>{b: 3, c: 4}\<close> gives \<^verbatim>\<open>{a: 1, b: 3, c: 4}\<close>.
\<close>

theorem getitem_override:
  assumes "\<not> contains (data self) key"
    and "map_of (config_patterns self) key = Some patterns"
    and "load_ok w"
    and "snd (load_and_merge_dir_config w (base_path w self) patterns) = Inr base_config"
    and "snd (load_and_merge_dir_config w (env_path w self) patterns) = Inr env_config"
    and "base_config \<noteq> [] \<or> env_config \<noteq> []"
  shows "\<exists>config. snd (getitem w self key) = Inr config \<and>
           (\<forall>k. map_of config k =
                  (if k \<in> set (keys env_config) then map_of env_config k
                   else map_of base_config k))"
proof -
  obtain evs1 where b: "load_and_merge_dir_config w (base_path w self) patterns = (evs1, Inr base_config)"
    using assms(4) by (cases "load_and_merge_dir_config w (base_path w self) patterns") simp
  obtain evs2 where e: "load_and_merge_dir_config w (env_path w self) patterns = (evs2, Inr env_config)"
    using assms(5) by (cases "load_and_merge_dir_config w (env_path w self) patterns") simp
  from getitem_compose [OF assms(1,2) b e] assms(6)
  have g: "snd (getitem w self key) = Inr (dict_update base_config env_config)" by auto
  have d: "distinct (keys env_config)"
    by (rule load_and_merge_distinct [OF assms(3,5)])
  have "map_of (dict_update base_config env_config) k =
          (if k \<in> set (keys env_config) then map_of env_config k else map_of base_config k)" for k
  proof (cases "k \<in> set (keys env_config)")
    case True
    from map_of_keys_Some [OF True] obtain v where "map_of env_config k = Some v" ..
    with True show ?thesis by (simp add: map_of_dict_update [OF d] map_add_def)
  next
    case False
    with map_of_keys_None [OF False] show ?thesis
      by (simp add: map_of_dict_update [OF d] map_add_def)
  qed
  with g show ?thesis by blast
qed

theorem getitem_override_witness:
  "\<not> contains (data example_loader) ''catalog'' \<and>
   map_of (config_patterns example_loader) ''catalog'' = Some catalog_patterns \<and>
   load_ok layered_world \<and>
   snd (load_and_merge_dir_config layered_world (base_path layered_world example_loader)
          catalog_patterns) = Inr [(''a'', 1), (''b'', 2)] \<and>
   snd (load_and_merge_dir_config layered_world (env_path layered_world example_loader)
          catalog_patterns) = Inr [(''b'', 3), (''c'', 4)] \<and>
   (\<exists>config. snd (getitem layered_world example_loader ''catalog'') = Inr config \<and>
      (\<forall>k. map_of config k =
             (if k \<in> set (keys [(''b'', 3::nat), (''c'', 4)]) then map_of [(''b'', 3), (''c'', 4)] k
              else map_of [(''a'', 1), (''b'', 2)] k))) \<and>
   snd (getitem layered_world example_loader ''catalog'')
     = Inr [(''a'', 1), (''b'', 3), (''c'', 4)]"
proof -
  have hb: "snd (load_and_merge_dir_config layered_world (base_path layered_world example_loader)
          catalog_patterns) = Inr [(''a'', 1), (''b'', 2)]"
    unfolding layered_world_def example_paths
    by (rule layered_world_base [unfolded layered_world_def])
  have he: "snd (load_and_merge_dir_config layered_world (env_path layered_world example_loader)
          catalog_patterns) = Inr [(''b'', 3), (''c'', 4)]"
    unfolding layered_world_def example_paths
    by (rule layered_world_env [unfolded layered_world_def])
  have ne: "[(''a'', 1::nat), (''b'', 2)] \<noteq> [] \<or> [(''b'', 3::nat), (''c'', 4)] \<noteq> []" by simp
  note t = getitem_override [OF example_loader_facts layered_world_load_ok hb he ne]
  have v: "snd (getitem layered_world example_loader ''catalog'')
     = Inr [(''a'', 1), (''b'', 3), (''c'', 4)]"
    by code_simp
  from example_loader_facts layered_world_load_ok hb he t v show ?thesis by blast
qed

text \<open>
  C6: when both directories exist and load, the lookup fails with the missing-configuration
  error exactly when neither layer contributes a key, that is when the composed tree is
  empty; the message names the base directory, the environment directory and the patterns
  that were searched. When a layer contributes a key, the lookup raises no error and
  returns a tree that is not empty, with the keys of both layers.
\<close>

theorem getitem_missing_config:
  assumes "\<not> contains (data self) key"
    and "map_of (config_patterns self) key = Some patterns"
    and "snd (load_and_merge_dir_config w (base_path w self) patterns) = Inr base_config"
    and "snd (load_and_merge_dir_config w (env_path w self) patterns) = Inr env_config"
  shows "is_dir w (base_path w self) \<and> is_dir w (env_path w self) \<and>
         ((snd (getitem w self key) =
             Inl (MissingConfigException
                    (''No files of YAML or JSON format found in '' @ base_path w self
                       @ '' or '' @ env_path w self @ '' matching the glob pattern(s): ''
                       @ repr_list patterns)))
            = (base_config = [] \<and> env_config = [])) \<and>
         ((\<exists>config. snd (getitem w self key) = Inr config \<and> config \<noteq> [] \<and>
                    set (keys config) = set (keys base_config) \<union> set (keys env_config))
            = (\<not> (base_config = [] \<and> env_config = [])))"
proof -
  from assms(3) have db: "is_dir w (base_path w self)"
    by (rule load_and_merge_Inr_cases)
  from assms(4) have de: "is_dir w (env_path w self)"
    by (rule load_and_merge_Inr_cases)
  obtain evs1 where b: "load_and_merge_dir_config w (base_path w self) patterns = (evs1, Inr base_config)"
    using assms(3) by (cases "load_and_merge_dir_config w (base_path w self) patterns") simp
  obtain evs2 where e: "load_and_merge_dir_config w (env_path w self) patterns = (evs2, Inr env_config)"
    using assms(4) by (cases "load_and_merge_dir_config w (env_path w self) patterns") simp
  note g = getitem_compose [OF assms(1,2) b e]
  show ?thesis
  proof (cases "base_config = [] \<and> env_config = []")
    case True
    with g db de show ?thesis by (simp add: missing_message_def)
  next
    case False
    with g have r: "snd (getitem w self key) = Inr (dict_update base_config env_config)" by simp
    from False have ne: "dict_update base_config env_config \<noteq> []"
      by (simp add: dict_update_Nil_iff)
    have k: "set (keys (dict_update base_config env_config))
               = set (keys base_config) \<union> set (keys env_config)"
      by (rule keys_dict_update)
    from r ne k have "\<exists>config. snd (getitem w self key) = Inr config \<and> config \<noteq> [] \<and>
                    set (keys config) = set (keys base_config) \<union> set (keys env_config)"
      by blast
    with False r db de show ?thesis by simp
  qed
qed

theorem getitem_missing_config_witness:
  "\<not> contains (data example_loader) ''catalog'' \<and>
   map_of (config_patterns example_loader) ''catalog'' = Some catalog_patterns \<and>
   snd (load_and_merge_dir_config empty_world (base_path empty_world example_loader)
          catalog_patterns) = Inr [] \<and>
   snd (load_and_merge_dir_config empty_world (env_path empty_world example_loader)
          catalog_patterns) = Inr [] \<and>
   is_dir empty_world ''conf/base'' \<and> is_dir empty_world ''conf/local'' \<and>
   snd (getitem empty_world example_loader ''catalog'') =
     Inl (MissingConfigException
            (''No files of YAML or JSON format found in conf/base or conf/local''
               @ '' matching the glob pattern(s): ''
               @ [CHR ''['', CHR 0x27] @ ''catalog*'' @ [CHR 0x27] @ '', '' @ [CHR 0x27]
               @ ''catalog*/**'' @ [CHR 0x27] @ '', '' @ [CHR 0x27] @ ''**/catalog*''
               @ [CHR 0x27, CHR '']''])) \<and>
   snd (load_and_merge_dir_config layered_world (base_path layered_world example_loader)
          catalog_patterns) = Inr [(''a'', 1), (''b'', 2)] \<and>
   snd (load_and_merge_dir_config layered_world (env_path layered_world example_loader)
          catalog_patterns) = Inr [(''b'', 3), (''c'', 4)] \<and>
   (\<exists>config. snd (getitem layered_world example_loader ''catalog'') = Inr config \<and>
      config \<noteq> [] \<and> set (keys config) = {''a'', ''b'', ''c''})"
proof -
  have pb: "base_path empty_world example_loader = ''conf/base''"
    and pe: "env_path empty_world example_loader = ''conf/local''"
    unfolding empty_world_def by (rule example_paths)+
  have hb: "snd (load_and_merge_dir_config empty_world (base_path empty_world example_loader)
          catalog_patterns) = Inr []"
    unfolding pb by (rule empty_world_dirs)
  have he: "snd (load_and_merge_dir_config empty_world (env_path empty_world example_loader)
          catalog_patterns) = Inr []"
    unfolding pe by (rule empty_world_dirs)
  have r: "repr_list catalog_patterns =
             [CHR ''['', CHR 0x27] @ ''catalog*'' @ [CHR 0x27] @ '', '' @ [CHR 0x27]
               @ ''catalog*/**'' @ [CHR 0x27] @ '', '' @ [CHR 0x27] @ ''**/catalog*''
               @ [CHR 0x27, CHR '']'']"
    by code_simp
  have lb: "snd (load_and_merge_dir_config layered_world (base_path layered_world example_loader)
          catalog_patterns) = Inr [(''a'', 1), (''b'', 2)]"
    unfolding layered_world_def example_paths
    by (rule layered_world_base [unfolded layered_world_def])
  have le: "snd (load_and_merge_dir_config layered_world (env_path layered_world example_loader)
          catalog_patterns) = Inr [(''b'', 3), (''c'', 4)]"
    unfolding layered_world_def example_paths
    by (rule layered_world_env [unfolded layered_world_def])
  note t0 = getitem_missing_config [OF example_loader_facts hb he]
  note t1 = getitem_missing_config [OF example_loader_facts lb le]
  from t0 have d: "is_dir empty_world ''conf/base''" "is_dir empty_world ''conf/local''"
    by (simp_all add: pb pe)
  from t0 have g0: "snd (getitem empty_world example_loader ''catalog'') =
     Inl (MissingConfigException
            (''No files of YAML or JSON format found in conf/base or conf/local''
               @ '' matching the glob pattern(s): ''
               @ [CHR ''['', CHR 0x27] @ ''catalog*'' @ [CHR 0x27] @ '', '' @ [CHR 0x27]
               @ ''catalog*/**'' @ [CHR 0x27] @ '', '' @ [CHR 0x27] @ ''**/catalog*''
               @ [CHR 0x27, CHR '']'']))"
    by (simp add: pb pe r)
  from t1 have "\<exists>config. snd (getitem layered_world example_loader ''catalog'') = Inr config \<and>
      config \<noteq> [] \<and>
      set (keys config) = set (keys [(''a'', 1::nat), (''b'', 2)]) \<union> set (keys [(''b'', 3::nat), (''c'', 4)])"
    by simp
  moreover have "set (keys [(''a'', 1::nat), (''b'', 2)]) \<union> set (keys [(''b'', 3::nat), (''c'', 4)])
                   = {''a'', ''b'', ''c''}"
    by (auto simp: keys_def)
  ultimately have g1: "\<exists>config. snd (getitem layered_world example_loader ''catalog'') = Inr config \<and>
      config \<noteq> [] \<and> set (keys config) = {''a'', ''b'', ''c''}"
    by simp
  from example_loader_facts hb he d g0 lb le g1 show ?thesis by blast
qed

subsection \<open>Missing directories\<close>

text \<open>
  C5, as the code has it: for a key with patterns and no pre-set value, a missing base
  directory makes the lookup fail with the missing-path error that names the base
  directory, after the one directory test and before any pattern is expanded, whatever the
  environment directory holds. A missing environment directory makes the lookup fail with
  the missing-path error that names the environment directory once the base directory has
  loaded without error; that test comes after the pattern expansion and the loads of the
  base directory, and before any pattern is expanded in the environment directory.
\<close>

theorem getitem_missing_path:
  assumes "\<not> contains (data self) key"
    and "map_of (config_patterns self) key = Some patterns"
  shows "(\<not> is_dir w (base_path w self) \<longrightarrow>
            getitem w self key =
              ([IsDir (base_path w self)],
               Inl (MissingConfigException
                      (''Given configuration path either does not exist ''
                         @ ''or is not a valid directory: '' @ base_path w self)))) \<and>
         (\<forall>evs base_config.
            load_and_merge_dir_config w (base_path w self) patterns = (evs, Inr base_config) \<and>
            \<not> is_dir w (env_path w self) \<longrightarrow>
            getitem w self key =
              (evs @ [IsDir (env_path w self)],
               Inl (MissingConfigException
                      (''Given configuration path either does not exist ''
                         @ ''or is not a valid directory: '' @ env_path w self))))"
proof (intro conjI impI allI)
  assume "\<not> is_dir w (base_path w self)"
  from getitem_base_error [OF assms load_and_merge_missing [OF this]]
  show "getitem w self key =
              ([IsDir (base_path w self)],
               Inl (MissingConfigException
                      (''Given configuration path either does not exist ''
                         @ ''or is not a valid directory: '' @ base_path w self)))" .
next
  fix evs base_config
  assume a: "load_and_merge_dir_config w (base_path w self) patterns = (evs, Inr base_config) \<and>
            \<not> is_dir w (env_path w self)"
  then have b: "load_and_merge_dir_config w (base_path w self) patterns = (evs, Inr base_config)"
    and e: "\<not> is_dir w (env_path w self)" by simp_all
  from getitem_env_error [OF assms b load_and_merge_missing [OF e]]
  show "getitem w self key =
              (evs @ [IsDir (env_path w self)],
               Inl (MissingConfigException
                      (''Given configuration path either does not exist ''
                         @ ''or is not a valid directory: '' @ env_path w self)))" .
qed

theorem getitem_missing_path_witness:
  "\<not> contains (data example_loader) ''catalog'' \<and>
   map_of (config_patterns example_loader) ''catalog'' = Some catalog_patterns \<and>
   \<not> is_dir no_base_world (base_path no_base_world example_loader) \<and>
   snd (load_and_merge_dir_config no_base_world (env_path no_base_world example_loader)
          catalog_patterns) = Inr [(''b'', 3), (''c'', 4)] \<and>
   getitem no_base_world example_loader ''catalog'' =
     ([IsDir ''conf/base''],
      Inl (MissingConfigException
             (''Given configuration path either does not exist ''
                @ ''or is not a valid directory: conf/base''))) \<and>
   load_and_merge_dir_config no_env_world (base_path no_env_world example_loader)
       catalog_patterns
     = ([IsDir ''conf/base'', Glob ''conf/base/catalog*'', Glob ''conf/base/catalog*/**'',
         Glob ''conf/base/**/catalog*'', IsFile ''conf/base/catalog.yml'',
         Load ''conf/base/catalog.yml''], Inr [(''a'', 1), (''b'', 2)]) \<and>
   \<not> is_dir no_env_world (env_path no_env_world example_loader) \<and>
   getitem no_env_world example_loader ''catalog'' =
     ([IsDir ''conf/base'', Glob ''conf/base/catalog*'', Glob ''conf/base/catalog*/**'',
       Glob ''conf/base/**/catalog*'', IsFile ''conf/base/catalog.yml'',
       Load ''conf/base/catalog.yml'', IsDir ''conf/local''],
      Inl (MissingConfigException
             (''Given configuration path either does not exist ''
                @ ''or is not a valid directory: conf/local'')))"
proof -
  have nb: "\<not> is_dir no_base_world (base_path no_base_world example_loader)"
    by code_simp
  have ne: "\<not> is_dir no_env_world (env_path no_env_world example_loader)"
    by code_simp
  have pb: "base_path no_base_world example_loader = ''conf/base''"
    and pe: "env_path no_env_world example_loader = ''conf/local''"
    unfolding no_base_world_def no_env_world_def by (rule example_paths)+
  have le: "snd (load_and_merge_dir_config no_base_world (env_path no_base_world example_loader)
          catalog_patterns) = Inr [(''b'', 3), (''c'', 4)]"
    by code_simp
  have lb: "load_and_merge_dir_config no_env_world (base_path no_env_world example_loader)
       catalog_patterns
     = ([IsDir ''conf/base'', Glob ''conf/base/catalog*'', Glob ''conf/base/catalog*/**'',
         Glob ''conf/base/**/catalog*'', IsFile ''conf/base/catalog.yml'',
         Load ''conf/base/catalog.yml''], Inr [(''a'', 1), (''b'', 2)])"
    by code_simp
  note t1 = getitem_missing_path [OF example_loader_facts, of no_base_world, THEN conjunct1,
      rule_format, OF nb]
  note t2 = getitem_missing_path [OF example_loader_facts, of no_env_world, THEN conjunct2,
      rule_format, OF conjI, OF lb ne]
  from example_loader_facts nb le t1 lb ne t2 show ?thesis
    by (simp add: pb pe)
qed

text \<open>
  C5 as stated fails: with the environment directory missing and a malformed file in the
  base directory, the lookup fails with the parse error of the base directory, not with
  the missing-path error for the environment directory.
\<close>

theorem missing_env_counterexample:
  "\<not> contains (data example_loader) ''catalog'' \<and>
   contains (config_patterns example_loader) ''catalog'' \<and>
   \<not> is_dir broken_base_world (env_path broken_base_world example_loader) \<and>
   env_path broken_base_world example_loader = ''conf/local'' \<and>
   snd (getitem broken_base_world example_loader ''catalog'') =
     Inl (ParserError (''Invalid YAML or JSON file conf/base/catalog.yml, ''
                         @ ''unable to read line 2, position 4.'')) \<and>
   snd (getitem broken_base_world example_loader ''catalog'') \<noteq>
     Inl (MissingConfigException
            (''Given configuration path either does not exist ''
               @ ''or is not a valid directory: conf/local''))"
proof -
  have g: "snd (getitem broken_base_world example_loader ''catalog'') =
     Inl (ParserError (''Invalid YAML or JSON file conf/base/catalog.yml, ''
                         @ ''unable to read line 2, position 4.''))"
    by code_simp
  have c: "contains (config_patterns example_loader) ''catalog''"
    by (simp add: contains_map_of example_loader_facts)
  have ne: "\<not> is_dir broken_base_world (env_path broken_base_world example_loader)"
    by code_simp
  have pe: "env_path broken_base_world example_loader = ''conf/local''"
    unfolding broken_base_world_def by (rule example_paths)
  from example_loader_facts(1) c ne pe g show ?thesis by simp
qed

subsection \<open>Malformed files\<close>

text \<open>
  C4, as the code has it: when a directory that the lookup reaches (the base directory, or
  the environment directory after the base directory has loaded) holds a malformed
  configuration file, the lookup fails with the parse error of the first malformed file in
  the order in which the loader goes through the files, every file before it having
  parsed. The message states the path of that file and the line and the column of the
  parser's mark as the parser reports them, which count from 0.
\<close>

theorem getitem_parse_error:
  assumes "\<not> contains (data self) key"
    and "map_of (config_patterns self) key = Some patterns"
    and "conf_path = base_path w self \<or>
         (conf_path = env_path w self \<and>
          (\<exists>b. snd (load_and_merge_dir_config w (base_path w self) patterns) = Inr b))"
    and "is_dir w conf_path"
    and "q \<in> set (config_files_filtered w conf_path patterns)"
    and "load w q = Inl mq"
  shows "\<exists>good p rest m.
           config_files_filtered w conf_path patterns = good @ p # rest \<and>
           (\<forall>x\<in>set good. \<exists>c. load w x = Inr c) \<and> load w p = Inl m \<and>
           snd (getitem w self key) =
             Inl (ParserError (''Invalid YAML or JSON file '' @ p @ '', unable to read line ''
                                 @ str_nat (line m) @ '', position '' @ str_nat (column m)
                                 @ ''.''))"
proof -
  from assms(5,6) obtain good p rest m
    where ps: "config_files_filtered w conf_path patterns = good @ p # rest"
      and m: "load w p = Inl m" and g: "\<forall>x\<in>set good. \<exists>c. load w x = Inr c"
    by (rule first_malformed)
  note l = load_and_merge_first_malformed [OF assms(4) ps g m]
  have "snd (getitem w self key) = Inl (ParserError (parser_message p m))"
  proof (cases "conf_path = base_path w self")
    case True
    from getitem_base_error [OF assms(1,2) l [unfolded True]] show ?thesis by simp
  next
    case False
    with assms(3) obtain b where e: "conf_path = env_path w self"
      and "snd (load_and_merge_dir_config w (base_path w self) patterns) = Inr b" by blast
    then obtain evs where b: "load_and_merge_dir_config w (base_path w self) patterns = (evs, Inr b)"
      by (cases "load_and_merge_dir_config w (base_path w self) patterns") simp
    from getitem_env_error [OF assms(1,2) b l [unfolded e]] show ?thesis by simp
  qed
  with ps g m show ?thesis unfolding parser_message_def by blast
qed

theorem getitem_parse_error_witness:
  "\<not> contains (data example_loader) ''catalog'' \<and>
   map_of (config_patterns example_loader) ''catalog'' = Some catalog_patterns \<and>
   is_dir malformed_world (base_path malformed_world example_loader) \<and>
   ''conf/base/catalog_worse.yml''
     \<in> set (config_files_filtered malformed_world (base_path malformed_world example_loader)
              catalog_patterns) \<and>
   load malformed_world ''conf/base/catalog_worse.yml'' = Inl \<lparr> line = 3, column = 1 \<rparr> \<and>
   (\<exists>good p rest m.
      config_files_filtered malformed_world (base_path malformed_world example_loader)
        catalog_patterns = good @ p # rest \<and>
      (\<forall>x\<in>set good. \<exists>c. load malformed_world x = Inr c) \<and> load malformed_world p = Inl m \<and>
      snd (getitem malformed_world example_loader ''catalog'') =
        Inl (ParserError (''Invalid YAML or JSON file '' @ p @ '', unable to read line ''
                            @ str_nat (line m) @ '', position '' @ str_nat (column m)
                            @ ''.''))) \<and>
   config_files_filtered malformed_world (base_path malformed_world example_loader)
       catalog_patterns
     = [''conf/base/catalog.yml''] @ ''conf/base/catalog_bad.yml''
         # [''conf/base/catalog_worse.yml''] \<and>
   load malformed_world ''conf/base/catalog.yml'' = Inr [(''a'', 1), (''b'', 2)] \<and>
   load malformed_world ''conf/base/catalog_bad.yml'' = Inl \<lparr> line = 0, column = 5 \<rparr> \<and>
   snd (getitem malformed_world example_loader ''catalog'') =
     Inl (ParserError (''Invalid YAML or JSON file conf/base/catalog_bad.yml, ''
                         @ ''unable to read line 0, position 5.''))"
proof -
  have d: "is_dir malformed_world (base_path malformed_world example_loader)"
    by code_simp
  have q: "''conf/base/catalog_worse.yml''
     \<in> set (config_files_filtered malformed_world (base_path malformed_world example_loader)
              catalog_patterns)"
    by code_simp
  have l: "load malformed_world ''conf/base/catalog_worse.yml'' = Inl \<lparr> line = 3, column = 1 \<rparr>"
    by code_simp
  have r: "base_path malformed_world example_loader = base_path malformed_world example_loader
        \<or> (base_path malformed_world example_loader = env_path malformed_world example_loader \<and>
          (\<exists>b. snd (load_and_merge_dir_config malformed_world
                       (base_path malformed_world example_loader) catalog_patterns) = Inr b))"
    by simp
  note t = getitem_parse_error [OF example_loader_facts r d q l]
  have f: "config_files_filtered malformed_world (base_path malformed_world example_loader)
       catalog_patterns
     = [''conf/base/catalog.yml''] @ ''conf/base/catalog_bad.yml''
         # [''conf/base/catalog_worse.yml'']"
    by code_simp
  have l0: "load malformed_world ''conf/base/catalog.yml'' = Inr [(''a'', 1), (''b'', 2)]"
    by code_simp
  have l1: "load malformed_world ''conf/base/catalog_bad.yml'' = Inl \<lparr> line = 0, column = 5 \<rparr>"
    by code_simp
  have g: "snd (getitem malformed_world example_loader ''catalog'') =
     Inl (ParserError (''Invalid YAML or JSON file conf/base/catalog_bad.yml, ''
                         @ ''unable to read line 0, position 5.''))"
    by code_simp
  from example_loader_facts d q l t f l0 l1 g show ?thesis by blast
qed

text \<open>
  C4 as stated fails in three ways. The file \<^verbatim>\<open>catalog_bad.yml\<close> is malformed in its
  first line, where the parser's mark has line index 0 and column index 5: the message
  reads line 0, position 5, and not the 1-based line 1, position 6. The file
  \<^verbatim>\<open>catalog_worse.yml\<close> of the same directory is malformed as well, and the error of the
  lookup does not state its path or its position, 0-based or 1-based. And a malformed
  file in the environment directory is not reported at all when the base directory is
  missing: the lookup fails with the missing-path error.
\<close>

theorem parse_error_one_based_counterexample:
  "load malformed_world ''conf/base/catalog_bad.yml'' = Inl \<lparr> line = 0, column = 5 \<rparr> \<and>
   snd (getitem malformed_world example_loader ''catalog'') =
     Inl (ParserError (''Invalid YAML or JSON file conf/base/catalog_bad.yml, ''
                         @ ''unable to read line 0, position 5.'')) \<and>
   snd (getitem malformed_world example_loader ''catalog'') \<noteq>
     Inl (ParserError (''Invalid YAML or JSON file conf/base/catalog_bad.yml, ''
                         @ ''unable to read line '' @ str_nat (0 + 1) @ '', position ''
                         @ str_nat (5 + 1) @ ''.'')) \<and>
   ''conf/base/catalog_worse.yml''
     \<in> set (config_files_filtered malformed_world (base_path malformed_world example_loader)
              catalog_patterns) \<and>
   load malformed_world ''conf/base/catalog_worse.yml'' = Inl \<lparr> line = 3, column = 1 \<rparr> \<and>
   snd (getitem malformed_world example_loader ''catalog'') \<noteq>
     Inl (ParserError (''Invalid YAML or JSON file conf/base/catalog_worse.yml, ''
                         @ ''unable to read line '' @ str_nat 3 @ '', position ''
                         @ str_nat 1 @ ''.'')) \<and>
   snd (getitem malformed_world example_loader ''catalog'') \<noteq>
     Inl (ParserError (''Invalid YAML or JSON file conf/base/catalog_worse.yml, ''
                         @ ''unable to read line '' @ str_nat (3 + 1) @ '', position ''
                         @ str_nat (1 + 1) @ ''.'')) \<and>
   ''conf/local/catalog.yml''
     \<in> set (config_files_filtered malformed_env_world
              (env_path malformed_env_world example_loader) catalog_patterns) \<and>
   load malformed_env_world ''conf/local/catalog.yml'' = Inl \<lparr> line = 0, column = 5 \<rparr> \<and>
   snd (getitem malformed_env_world example_loader ''catalog'') =
     Inl (MissingConfigException
            (''Given configuration path either does not exist ''
               @ ''or is not a valid directory: conf/base''))"
proof -
  have l: "load malformed_world ''conf/base/catalog_bad.yml'' = Inl \<lparr> line = 0, column = 5 \<rparr>"
    by code_simp
  have g: "snd (getitem malformed_world example_loader ''catalog'') =
     Inl (ParserError (''Invalid YAML or JSON file conf/base/catalog_bad.yml, ''
                         @ ''unable to read line 0, position 5.''))"
    by code_simp
  have s: "str_nat (Suc 0) = ''1''" "str_nat 6 = ''6''" "str_nat 3 = ''3''" "str_nat 1 = ''1''"
    "str_nat 4 = ''4''" "str_nat 2 = ''2''"
    by code_simp+
  have q: "''conf/base/catalog_worse.yml''
     \<in> set (config_files_filtered malformed_world (base_path malformed_world example_loader)
              catalog_patterns)"
    by code_simp
  have lw: "load malformed_world ''conf/base/catalog_worse.yml'' = Inl \<lparr> line = 3, column = 1 \<rparr>"
    by code_simp
  have qe: "''conf/local/catalog.yml''
     \<in> set (config_files_filtered malformed_env_world
              (env_path malformed_env_world example_loader) catalog_patterns)"
    by code_simp
  have le: "load malformed_env_world ''conf/local/catalog.yml'' = Inl \<lparr> line = 0, column = 5 \<rparr>"
    by code_simp
  have ge: "snd (getitem malformed_env_world example_loader ''catalog'') =
     Inl (MissingConfigException
            (''Given configuration path either does not exist ''
               @ ''or is not a valid directory: conf/base''))"
    by code_simp
  have n1: "snd (getitem malformed_world example_loader ''catalog'') \<noteq>
     Inl (ParserError (''Invalid YAML or JSON file conf/base/catalog_bad.yml, ''
                         @ ''unable to read line '' @ str_nat (0 + 1) @ '', position ''
                         @ str_nat (5 + 1) @ ''.''))"
    unfolding g by (simp add: s)
  have n2: "snd (getitem malformed_world example_loader ''catalog'') \<noteq>
     Inl (ParserError (''Invalid YAML or JSON file conf/base/catalog_worse.yml, ''
                         @ ''unable to read line '' @ str_nat 3 @ '', position ''
                         @ str_nat 1 @ ''.''))"
    unfolding g by (simp add: s)
  have n3: "snd (getitem malformed_world example_loader ''catalog'') \<noteq>
     Inl (ParserError (''Invalid YAML or JSON file conf/base/catalog_worse.yml, ''
                         @ ''unable to read line '' @ str_nat (3 + 1) @ '', position ''
                         @ str_nat (1 + 1) @ ''.''))"
    unfolding g by (simp add: s)
  from l g n1 q lw n2 n3 qe le ge show ?thesis by blast
qed

subsection \<open>The merge of one directory\<close>

text \<open>
  C7: for the fragments loaded from one directory, no fragment gives the empty tree, one
  fragment gives that fragment's tree as it is, and two or more fragments whose top-level
  key sets are pairwise disjoint give a tree whose top-level keys are the union of the
  fragments' keys and in which every key has the value that its fragment gives it.
\<close>

theorem directory_merge:
  assumes "is_dir w conf_path"
    and "snd (load_files w [] (config_files_filtered w conf_path patterns)) = Inr config_per_file"
    and "load_ok w"
  shows "(config_per_file = [] \<longrightarrow>
            snd (load_and_merge_dir_config w conf_path patterns) = Inr []) \<and>
         (\<forall>filepath config. config_per_file = [(filepath, config)] \<longrightarrow>
            snd (load_and_merge_dir_config w conf_path patterns) = Inr config) \<and>
         (2 \<le> length config_per_file \<and> pairwise_disjoint (map snd config_per_file) \<longrightarrow>
            (\<exists>merged. snd (load_and_merge_dir_config w conf_path patterns) = Inr merged \<and>
               set (keys merged) = (\<Union>config\<in>set (map snd config_per_file). set (keys config)) \<and>
               (\<forall>config\<in>set (map snd config_per_file). \<forall>k\<in>set (keys config).
                  map_of merged k = map_of config k)))"
proof (intro conjI allI impI)
  note r = load_and_merge_loaded_snd [OF assms(1,2)]
  {
    assume "config_per_file = []"
    then show "snd (load_and_merge_dir_config w conf_path patterns) = Inr []"
      unfolding r by (simp add: merge_dir_config_disjoint pairwise_disjoint_Nil)
  next
    fix filepath config assume c: "config_per_file = [(filepath, config)]"
    have "pairwise_disjoint [config]" by (simp add: pairwise_disjoint_def)
    with c show "snd (load_and_merge_dir_config w conf_path patterns) = Inr config"
      unfolding r by (simp add: merge_dir_config_disjoint)
  next
    assume a: "2 \<le> length config_per_file \<and> pairwise_disjoint (map snd config_per_file)"
    then have pd: "pairwise_disjoint (map snd config_per_file)" and ne: "config_per_file \<noteq> []"
      and n1: "length config_per_file \<noteq> 1" by auto
    let ?m = "omegaconf_merge (merge_value w) (map snd config_per_file)"
    from pd ne n1 have m: "snd (load_and_merge_dir_config w conf_path patterns) = Inr ?m"
      unfolding r by (simp add: merge_dir_config_disjoint)
    note d = load_files_distinct_keys [OF assms(3,2)]
    have k: "set (keys ?m) = (\<Union>config\<in>set (map snd config_per_file). set (keys config))"
      by (rule keys_omegaconf_merge)
    have v: "\<forall>config\<in>set (map snd config_per_file). \<forall>k\<in>set (keys config).
                  map_of ?m k = map_of config k"
      using map_of_omegaconf_merge [OF pd d] by blast
    from m k v
    show "\<exists>merged. snd (load_and_merge_dir_config w conf_path patterns) = Inr merged \<and>
               set (keys merged) = (\<Union>config\<in>set (map snd config_per_file). set (keys config)) \<and>
               (\<forall>config\<in>set (map snd config_per_file). \<forall>k\<in>set (keys config).
                  map_of merged k = map_of config k)"
      by blast
  }
qed

theorem directory_merge_witness:
  "is_dir two_file_world ''conf/base'' \<and>
   snd (load_files two_file_world []
          (config_files_filtered two_file_world ''conf/base'' catalog_patterns))
     = Inr [(''conf/base/catalog_a.yml'', [(''a'', 1), (''b'', 2)]),
            (''conf/base/catalog_b.yml'', [(''c'', 3)])] \<and>
   load_ok two_file_world \<and>
   pairwise_disjoint [[(''a'', 1::nat), (''b'', 2)], [(''c'', 3)]] \<and>
   (\<exists>merged. snd (load_and_merge_dir_config two_file_world ''conf/base'' catalog_patterns)
                = Inr merged \<and>
      set (keys merged) = {''a'', ''b'', ''c''} \<and>
      map_of merged ''a'' = Some 1 \<and> map_of merged ''b'' = Some 2 \<and>
      map_of merged ''c'' = Some 3) \<and>
   snd (load_files layered_world []
          (config_files_filtered layered_world ''conf/base'' catalog_patterns))
     = Inr [(''conf/base/catalog.yml'', [(''a'', 1), (''b'', 2)])] \<and>
   snd (load_and_merge_dir_config layered_world ''conf/base'' catalog_patterns)
     = Inr [(''a'', 1), (''b'', 2)] \<and>
   snd (load_files empty_world [] (config_files_filtered empty_world ''conf/base'' catalog_patterns))
     = Inr [] \<and>
   snd (load_and_merge_dir_config empty_world ''conf/base'' catalog_patterns) = Inr []"
proof -
  have l2: "snd (load_files two_file_world []
          (config_files_filtered two_file_world ''conf/base'' catalog_patterns))
     = Inr [(''conf/base/catalog_a.yml'', [(''a'', 1), (''b'', 2)]),
            (''conf/base/catalog_b.yml'', [(''c'', 3)])]"
    by code_simp
  have l1: "snd (load_files layered_world []
          (config_files_filtered layered_world ''conf/base'' catalog_patterns))
     = Inr [(''conf/base/catalog.yml'', [(''a'', 1), (''b'', 2)])]"
    by code_simp
  have l0: "snd (load_files empty_world []
          (config_files_filtered empty_world ''conf/base'' catalog_patterns)) = Inr []"
    by code_simp
  have pd: "pairwise_disjoint [[(''a'', 1::nat), (''b'', 2)], [(''c'', 3)]]"
    by (simp add: pairwise_disjoint_Cons pairwise_disjoint_Nil keys_def)
  note t2 = directory_merge [OF example_world_is_dir_base(3) l2 example_world_load_oks(2)]
  note t1 = directory_merge [OF example_world_is_dir_base(2) l1 layered_world_load_ok]
  note t0 = directory_merge [OF example_world_is_dir_base(1) l0 example_world_load_oks(1)]
  from t2 pd obtain merged
    where m: "snd (load_and_merge_dir_config two_file_world ''conf/base'' catalog_patterns)
                = Inr merged"
      and k: "set (keys merged) = (\<Union>config\<in>set [[(''a'', 1::nat), (''b'', 2)], [(''c'', 3)]].
                                     set (keys config))"
      and v: "\<forall>config\<in>set [[(''a'', 1::nat), (''b'', 2)], [(''c'', 3)]]. \<forall>k\<in>set (keys config).
                  map_of merged k = map_of config k"
    by auto
  from k have k': "set (keys merged) = {''a'', ''b'', ''c''}" by (auto simp: keys_def)
  from v have "map_of merged ''a'' = Some 1" "map_of merged ''b'' = Some 2"
    "map_of merged ''c'' = Some 3"
    by (simp_all add: keys_def)
  with m k' have e: "\<exists>merged. snd (load_and_merge_dir_config two_file_world ''conf/base'' catalog_patterns)
                = Inr merged \<and>
      set (keys merged) = {''a'', ''b'', ''c''} \<and>
      map_of merged ''a'' = Some 1 \<and> map_of merged ''b'' = Some 2 \<and>
      map_of merged ''c'' = Some 3" by blast
  from t1 have r1: "snd (load_and_merge_dir_config layered_world ''conf/base'' catalog_patterns)
     = Inr [(''a'', 1), (''b'', 2)]" by blast
  from t0 have r0: "snd (load_and_merge_dir_config empty_world ''conf/base'' catalog_patterns)
     = Inr []" by blast
  from example_world_is_dir_base(3) l2 example_world_load_oks(2) pd e l1 r1 l0 r0
  show ?thesis by blast
qed

subsection \<open>Duplicate keys in one directory\<close>




subsection \<open>Independence of the order of enumeration\<close>

text \<open>
  C3: for a fixed key and a fixed set of files, the tree that a lookup returns does not
  depend on the order in which the file system enumerates the matches of a pattern, nor on
  the order in which the set of paths is iterated: when the lookup returns a tree under one
  order, it returns a tree under every other order, and the two trees are equal as
  dicts (the same keys with the same values).
\<close>

theorem getitem_enumeration_independent:
  assumes "same_files w w'" and "set_iter_ok w" and "set_iter_ok w'" and "load_ok w"
    and "snd (getitem w self key) = Inr config"
  shows "\<exists>config'. snd (getitem w' self key) = Inr config' \<and> map_of config' = map_of config"
  using assms(5)
proof (cases rule: getitem_Inr_cases)
  case preset
  then have "snd (getitem w' self key) = Inr config" by (simp add: getitem_def)
  then show ?thesis by blast
next
  case (loaded patterns base_config env_config)
  from assms(1) have jp: "joinpath w' = joinpath w" unfolding same_files_def by blast
  then have pb: "base_path w' self = base_path w self" and pe: "env_path w' self = env_path w self"
    by (simp_all add: base_path_def env_path_def)
  from directory_enumeration_independent [OF assms(1-4) loaded(3)]
  obtain b' where b': "snd (load_and_merge_dir_config w' (base_path w' self) patterns) = Inr b'"
    and mb: "map_of b' = map_of base_config" unfolding pb by blast
  from directory_enumeration_independent [OF assms(1-4) loaded(4)]
  obtain e' where e': "snd (load_and_merge_dir_config w' (env_path w' self) patterns) = Inr e'"
    and me: "map_of e' = map_of env_config" unfolding pe by blast
  obtain evs1 where b1: "load_and_merge_dir_config w' (base_path w' self) patterns = (evs1, Inr b')"
    using b' by (cases "load_and_merge_dir_config w' (base_path w' self) patterns") simp
  obtain evs2 where e1: "load_and_merge_dir_config w' (env_path w' self) patterns = (evs2, Inr e')"
    using e' by (cases "load_and_merge_dir_config w' (env_path w' self) patterns") simp
  from loaded(5,6) have "\<not> (base_config = [] \<and> env_config = [])"
    by (simp add: dict_update_Nil_iff)
  with map_of_eq_Nil_iff [OF mb] map_of_eq_Nil_iff [OF me] have ne: "\<not> (b' = [] \<and> e' = [])"
    by simp
  from getitem_compose [OF loaded(1,2) b1 e1] ne
  have g: "snd (getitem w' self key) = Inr (dict_update b' e')" by simp
  have de: "distinct (keys env_config)"
    by (rule load_and_merge_distinct [OF assms(4) loaded(4)])
  have de': "distinct (keys e')"
    by (rule load_and_merge_distinct [OF same_files_load_ok [OF assms(1,4)] e'])
  have "map_of (dict_update b' e') = map_of config"
    unfolding loaded(5) map_of_dict_update [OF de] map_of_dict_update [OF de'] mb me ..
  with g show ?thesis by blast
qed

theorem getitem_enumeration_independent_witness:
  "same_files two_file_world two_file_world' \<and>
   set_iter_ok two_file_world \<and> set_iter_ok two_file_world' \<and> load_ok two_file_world \<and>
   snd (getitem two_file_world example_loader ''catalog'') = Inr [(''a'', 1), (''b'', 2), (''c'', 3)] \<and>
   snd (getitem two_file_world' example_loader ''catalog'') = Inr [(''c'', 3), (''a'', 1), (''b'', 2)] \<and>
   map_of [(''c'', 3::nat), (''a'', 1), (''b'', 2)] = map_of [(''a'', 1), (''b'', 2), (''c'', 3)]"
proof -
  have g: "snd (getitem two_file_world example_loader ''catalog'')
             = Inr [(''a'', 1), (''b'', 2), (''c'', 3)]"
    by code_simp
  have g': "snd (getitem two_file_world' example_loader ''catalog'')
             = Inr [(''c'', 3), (''a'', 1), (''b'', 2)]"
    by code_simp
  from getitem_enumeration_independent
    [OF two_file_worlds_same two_file_world_ok example_world_load_oks(2) g]
  obtain config' where "snd (getitem two_file_world' example_loader ''catalog'') = Inr config'"
    and "map_of config' = map_of [(''a'', 1), (''b'', 2), (''c'', 3)]" by blast
  with g' have "map_of [(''c'', 3::nat), (''a'', 1), (''b'', 2)]
                  = map_of [(''a'', 1), (''b'', 2), (''c'', 3)]" by simp
  with two_file_worlds_same two_file_world_ok example_world_load_oks(2) g g'
  show ?thesis by blast
qed

end
